theory Spec2Isabelle
  imports Main "HOL-Library.Log_Nat" "HOL-Library.Multiset"
begin

section \<open>Python values used by the benchmark runner\<close>

subsection \<open>Binary64 floating point\<close>

text \<open>
  A Python \<open>float\<close> is an IEEE 754 binary64 value. A finite value is represented by the
  rational number it denotes; the two infinities and NaN are constructors of their own.
  The two zeros are one value here: Python compares them equal, and nothing in the runner
  divides by a float or prints a sign.
\<close>

datatype pyfloat = Fin rat | PInf | NInf | NaN

definition pow2 :: "int \<Rightarrow> rat" where
  "pow2 k = (if 0 \<le> k then 2 ^ nat k else 1 / 2 ^ nat (- k))"

text \<open>The binary exponent of a positive rational: \<open>pow2 (ilog2 x) \<le> x < pow2 (ilog2 x + 1)\<close>.\<close>

definition ilog2 :: "rat \<Rightarrow> int" where
  "ilog2 x = (let (p, q) = quotient_of x; d = bitlen p - bitlen q
              in if pow2 d \<le> x then d else d - 1)"

definition round_half_even :: "rat \<Rightarrow> int" where
  "round_half_even y = (let f = \<lfloor>y\<rfloor>; d = y - of_int f
     in if d < 1 / 2 then f else if 1 / 2 < d then f + 1 else if even f then f else f + 1)"

text \<open>
  Rounding of an exact result to binary64, to nearest with ties to even: 53 significant
  bits, the spacing never below \<open>2^-1074\<close> (gradual underflow), and overflow to an
  infinity when the rounded magnitude reaches \<open>2^1024\<close>.
\<close>

definition round_double :: "rat \<Rightarrow> pyfloat" where
  "round_double x = (if x = 0 then Fin 0 else
     let a = \<bar>x\<bar>; q = max (ilog2 a - 52) (- 1074);
         r = of_int (round_half_even (a / pow2 q)) * pow2 q
     in if pow2 1024 \<le> r then (if 0 < x then PInf else NInf)
        else Fin (if 0 < x then r else - r))"

fun fneg :: "pyfloat \<Rightarrow> pyfloat" where
  "fneg (Fin a) = Fin (- a)"
| "fneg PInf = NInf"
| "fneg NInf = PInf"
| "fneg NaN = NaN"

fun fadd :: "pyfloat \<Rightarrow> pyfloat \<Rightarrow> pyfloat" where
  "fadd (Fin a) (Fin b) = round_double (a + b)"
| "fadd NaN y = NaN"
| "fadd x NaN = NaN"
| "fadd PInf NInf = NaN"
| "fadd NInf PInf = NaN"
| "fadd PInf y = PInf"
| "fadd NInf y = NInf"
| "fadd x PInf = PInf"
| "fadd x NInf = NInf"

definition fsub :: "pyfloat \<Rightarrow> pyfloat \<Rightarrow> pyfloat" where
  "fsub x y = fadd x (fneg y)"

definition inf_of_sign :: "bool \<Rightarrow> pyfloat" where
  "inf_of_sign positive = (if positive then PInf else NInf)"

fun fmul :: "pyfloat \<Rightarrow> pyfloat \<Rightarrow> pyfloat" where
  "fmul (Fin a) (Fin b) = round_double (a * b)"
| "fmul NaN y = NaN"
| "fmul x NaN = NaN"
| "fmul (Fin a) y = (if a = 0 then NaN else inf_of_sign ((0 < a) = (y = PInf)))"
| "fmul x (Fin b) = (if b = 0 then NaN else inf_of_sign ((0 < b) = (x = PInf)))"
| "fmul x y = inf_of_sign (x = y)"

text \<open>Division by a finite non-zero divisor (the caller has raised on zero before).\<close>

fun fdiv :: "pyfloat \<Rightarrow> rat \<Rightarrow> pyfloat" where
  "fdiv (Fin a) b = round_double (a / b)"
| "fdiv NaN b = NaN"
| "fdiv x b = inf_of_sign ((0 < b) = (x = PInf))"

text \<open>Python's \<open><\<close> and \<open><=\<close> on floats: every comparison with NaN is false.\<close>

fun flt :: "pyfloat \<Rightarrow> pyfloat \<Rightarrow> bool" where
  "flt (Fin a) (Fin b) = (a < b)"
| "flt NaN y = False"
| "flt x NaN = False"
| "flt x NInf = False"
| "flt PInf y = False"
| "flt x y = True"

fun fle :: "pyfloat \<Rightarrow> pyfloat \<Rightarrow> bool" where
  "fle (Fin a) (Fin b) = (a \<le> b)"
| "fle NaN y = False"
| "fle x NaN = False"
| "fle NInf y = True"
| "fle x PInf = True"
| "fle x y = False"

subsection \<open>Exceptions, values and dictionaries\<close>

text \<open>
  An exception is its class name and its message (\<open>str(e)\<close>). The messages of the
  exceptions that the interpreter raises are those of CPython 3.11: a float divided by zero
  and an integer divided by zero raise ZeroDivisionError with two different messages.
\<close>

datatype exn = Exn (exn_class: string) (exn_message: string)

definition ZeroDivisionError :: exn where
  "ZeroDivisionError = Exn ''ZeroDivisionError'' ''float division by zero''"

definition IntZeroDivisionError :: exn where
  "IntZeroDivisionError = Exn ''ZeroDivisionError'' ''division by zero''"

definition IndexError :: exn where
  "IndexError = Exn ''IndexError'' ''list index out of range''"

definition OverflowError :: exn where
  "OverflowError = Exn ''OverflowError'' ''int too large to convert to float''"

definition ValueError :: exn where
  "ValueError = Exn ''ValueError'' ''cannot convert float NaN to integer''"

definition TypeError :: exn where
  "TypeError = Exn ''TypeError'' ''dump() takes 2 positional arguments but 3 were given''"

datatype pyval =
    VNone
  | VInt int
  | VFloat pyfloat
  | VStr string
  | VList "pyval list"
  | VDict "(string \<times> pyval) list"

type_synonym pydict = "(string \<times> pyval) list"

text \<open>\<open>type(x).__name__\<close>, and the TypeError of \<open>x / n\<close> for an \<open>x\<close> that is no number.\<close>

fun type_name :: "pyval \<Rightarrow> string" where
  "type_name VNone = ''NoneType''"
| "type_name (VInt i) = ''int''"
| "type_name (VFloat x) = ''float''"
| "type_name (VStr s) = ''str''"
| "type_name (VList xs) = ''list''"
| "type_name (VDict d) = ''dict''"

definition OperandTypeError :: "pyval \<Rightarrow> exn" where
  "OperandTypeError x =
     Exn ''TypeError''
       (''unsupported operand type(s) for /: '' @ [CHR 0x27] @ type_name x @ [CHR 0x27] @
        '' and '' @ [CHR 0x27] @ ''int'' @ [CHR 0x27])"

definition keys :: "pydict \<Rightarrow> string list" where
  "keys d = map fst d"

subsection \<open>List and numeric primitives\<close>

text \<open>\<open>xs[i]\<close>: a negative index counts from the end, an index out of range raises.\<close>

definition py_index :: "'a list \<Rightarrow> int \<Rightarrow> exn + 'a" where
  "py_index xs i =
     (if 0 \<le> i \<and> i < int (length xs) then Inr (xs ! nat i)
      else if i < 0 \<and> - int (length xs) \<le> i then Inr (xs ! nat (int (length xs) + i))
      else Inl IndexError)"

text \<open>
  \<open>sorted(times)\<close>: a stable comparison sort that only asks \<open><\<close>. On elements that
  \<open><\<close> orders totally (floats other than NaN) the result is the one stable ascending
  arrangement, computed here by stable insertion.
\<close>

fun insort_lt :: "pyfloat \<Rightarrow> pyfloat list \<Rightarrow> pyfloat list" where
  "insort_lt x [] = [x]"
| "insort_lt x (y # ys) = (if flt y x then y # insort_lt x ys else x # y # ys)"

definition py_sorted :: "pyfloat list \<Rightarrow> pyfloat list" where
  "py_sorted xs = foldr insort_lt xs []"

text \<open>
  \<open>sum(times)\<close> starts from the integer 0, so the sum of no samples is the integer 0;
  otherwise the floats are added from left to right, each addition rounded (the summation
  of CPython up to 3.11; later versions carry a correction term along).
\<close>

definition py_sum :: "pyfloat list \<Rightarrow> pyval" where
  "py_sum xs = (case xs of [] \<Rightarrow> VInt 0 | x # ys \<Rightarrow> VFloat (foldl fadd x ys))"

text \<open>Conversion of an integer to a float: correctly rounded, OverflowError beyond the range.\<close>

definition float_of_int :: "int \<Rightarrow> exn + rat" where
  "float_of_int n = (case round_double (of_int n) of Fin r \<Rightarrow> Inr r | _ \<Rightarrow> Inl OverflowError)"

text \<open>
  \<open>total_time / iterations\<close> with an integer divisor: the divisor is converted to a
  float, a zero divisor raises. The numerator is a float, or the integer 0 of an empty sum
  (true division of integers, correctly rounded, with the message of the integer division
  when the divisor is zero).
\<close>

definition py_truediv :: "pyval \<Rightarrow> int \<Rightarrow> exn + pyval" where
  "py_truediv x n =
     (case x of
        VFloat a \<Rightarrow>
          (case float_of_int n of
             Inl e \<Rightarrow> Inl e
           | Inr b \<Rightarrow> if b = 0 then Inl ZeroDivisionError else Inr (VFloat (fdiv a b)))
      | VInt a \<Rightarrow>
          if n = 0 then Inl IntZeroDivisionError
          else (case round_double (of_int a / of_int n) of
                  Fin r \<Rightarrow> Inr (VFloat (Fin r))
                | _ \<Rightarrow> Inl OverflowError)
      | _ \<Rightarrow> Inl (OperandTypeError x))"

text \<open>\<open>int(x)\<close> of a float truncates towards zero.\<close>

definition py_int :: "pyfloat \<Rightarrow> exn + int" where
  "py_int x = (case x of
       Fin r \<Rightarrow> Inr (if 0 \<le> r then \<lfloor>r\<rfloor> else \<lceil>r\<rceil>)
     | NaN \<Rightarrow> Inl ValueError
     | _ \<Rightarrow> Inl OverflowError)"

text \<open>The literal \<open>0.95\<close> is the double nearest to 95/100.\<close>

definition literal_0_95 :: pyfloat where
  "literal_0_95 = round_double (95 / 100)"

text \<open>\<open>int(iterations * 0.95)\<close>\<close>

definition p95_index :: "int \<Rightarrow> exn + int" where
  "p95_index iterations =
     (case float_of_int iterations of
        Inl e \<Rightarrow> Inl e
      | Inr x \<Rightarrow> py_int (fmul (Fin x) literal_0_95))"

section \<open>The statistics of one benchmark\<close>

text \<open>
  Lines 81 to 94 of \<open>run_benchmark\<close>: the result dictionary, its entries evaluated in
  the order of the dictionary display, so that the first failing entry decides the
  exception. The time stamp is the ISO text of \<open>datetime.now()\<close>.
\<close>

definition statistics :: "string \<Rightarrow> int \<Rightarrow> pyfloat list \<Rightarrow> string \<Rightarrow> exn + pydict" where
  "statistics name iterations samples timestamp =
     (let sorted_times = py_sorted samples; total_time = py_sum samples in
      case py_truediv total_time iterations of Inl e \<Rightarrow> Inl e | Inr mean \<Rightarrow>
      case py_index sorted_times (iterations div 2) of Inl e \<Rightarrow> Inl e | Inr median \<Rightarrow>
      case py_index sorted_times 0 of Inl e \<Rightarrow> Inl e | Inr mn \<Rightarrow>
      case py_index sorted_times (- 1) of Inl e \<Rightarrow> Inl e | Inr mx \<Rightarrow>
      case p95_index iterations of Inl e \<Rightarrow> Inl e | Inr k \<Rightarrow>
      case py_index sorted_times k of Inl e \<Rightarrow> Inl e | Inr p95 \<Rightarrow>
      Inr [(''name'', VStr name), (''iterations'', VInt iterations),
           (''total'', total_time), (''mean'', mean), (''median'', VFloat median),
           (''min'', VFloat mn), (''max'', VFloat mx), (''p95'', VFloat p95),
           (''timestamp'', VStr timestamp)])"

section \<open>The world the runner acts on\<close>

text \<open>
  A callable of a benchmark definition acts on a user state \<open>'u\<close> (the subject system, the
  data store behind it): it takes the state and returns the state after the call together
  with its return value or the exception it raised. The exceptions are instances of
  \<open>Exception\<close>, the ones that \<open>except Exception\<close> catches; the interpreter's exit signals
  (\<open>KeyboardInterrupt\<close>, \<open>SystemExit\<close>) are no values of \<open>exn\<close>.

  The runner itself changes two more things: the files under the results directory, a map
  from the name given to \<open>RESULTS_DIR / name\<close> to the text of the file, and the record
  of the calls it made. That record is not in the source: it is what lets a statement say
  that a callable was invoked, how often and with which argument. Each event carries the
  position of the benchmark in the suite, the argument and the outcome of the call.
  Opening a file for writing is taken to succeed (the module creates the directory when it
  is imported), and text printed to standard output is not part of the state.
\<close>

datatype 'c event =
    SetupDone nat "exn + 'c option"
  | FnDone nat "'c option" "exn option"
  | CleanupDone nat 'c "exn option"

record ('u, 'c) world =
  user :: 'u
  files :: "string \<rightharpoonup> string"
  trace :: "'c event list"

text \<open>
  What the runner asks of its environment: \<open>time.time()\<close>, a call that returns a finite
  float and may change the world; the ISO text of \<open>datetime.now()\<close>; the text that
  \<open>json.dump(obj, f, indent=2)\<close> writes for an object; and the text that
  \<open>traceback.format_exc()\<close> returns in the handler of an exception: the header, the frame
  lines of the traceback that the exception object carries, and the line of the class and
  the message. Nothing below depends on what that text is.
\<close>

record 'u env =
  time_time :: "'u \<Rightarrow> rat \<times> 'u"
  now_iso :: "'u \<Rightarrow> string"
  json_dumps :: "pyval \<Rightarrow> string"
  format_exc :: "exn \<Rightarrow> string"

text \<open>
  A benchmark definition is a dictionary with the keys \<open>name\<close> and \<open>fn\<close> and, optionally,
  \<open>iterations\<close>, \<open>setup\<close> and \<open>cleanup\<close>. The operation is called with no argument
  (\<open>None\<close> below) or with the one context (\<open>Some c\<close>); \<open>setup\<close> returns a Python value,
  which is \<open>None\<close> or a context. Every value of the record has a name and an operation:
  a dictionary that lacks the key \<open>name\<close> or the key \<open>fn\<close>, for which the runner
  raises KeyError, is no definition here, and neither is one whose \<open>fn\<close> is not a
  function with a \<open>__name__\<close>.
\<close>

record ('u, 'c, 'r) benchmark =
  b_name :: string
  b_fn :: "'c option \<Rightarrow> 'u \<Rightarrow> (exn + 'r) \<times> 'u"
  b_fn_name :: string
  b_iterations :: "int option"
  b_setup :: "('u \<Rightarrow> (exn + 'c option) \<times> 'u) option"
  b_cleanup :: "('c \<Rightarrow> 'u \<Rightarrow> (exn + unit) \<times> 'u) option"

record ('u, 'c, 'r) suite =
  s_name :: string
  s_description :: "string option"
  s_benchmarks :: "('u, 'c, 'r) benchmark list"

text \<open>The options of \<open>run_suite\<close>, with the defaults of \<open>options.get\<close> filled in.\<close>

record suite_options =
  o_warmup :: bool
  o_verbose :: bool
  o_save_individual :: bool
  o_save_file :: "string option"

definition default_suite_options :: suite_options where
  "default_suite_options =
     \<lparr>o_warmup = True, o_verbose = False, o_save_individual = False, o_save_file = None\<rparr>"

text \<open>The options of \<open>run_benchmark\<close>.\<close>

record ('u, 'r) bench_options =
  bo_name :: "string option"
  bo_warmup :: bool
  bo_progress :: bool
  bo_save_file :: "string option"
  bo_on_iteration :: "(int \<Rightarrow> pyfloat \<Rightarrow> 'r \<Rightarrow> 'u \<Rightarrow> (exn + unit) \<times> 'u) option"

definition call_setup ::
  "nat \<Rightarrow> ('u \<Rightarrow> (exn + 'c option) \<times> 'u) \<Rightarrow> ('u, 'c) world \<Rightarrow> (exn + 'c option) \<times> ('u, 'c) world" where
  "call_setup i f w =
     (let (r, u) = f (user w)
      in (r, w\<lparr>user := u, trace := trace w @ [SetupDone i r]\<rparr>))"

definition raised :: "exn + 'a \<Rightarrow> exn option" where
  "raised r = (case r of Inl e \<Rightarrow> Some e | Inr v \<Rightarrow> None)"

definition call_fn ::
  "nat \<Rightarrow> ('c option \<Rightarrow> 'u \<Rightarrow> (exn + 'r) \<times> 'u) \<Rightarrow> 'c option \<Rightarrow> ('u, 'c) world \<Rightarrow> (exn + 'r) \<times> ('u, 'c) world" where
  "call_fn i f a w =
     (let (r, u) = f a (user w)
      in (r, w\<lparr>user := u, trace := trace w @ [FnDone i a (raised r)]\<rparr>))"

definition call_cleanup ::
  "nat \<Rightarrow> ('c \<Rightarrow> 'u \<Rightarrow> (exn + unit) \<times> 'u) \<Rightarrow> 'c \<Rightarrow> ('u, 'c) world \<Rightarrow> (exn + unit) \<times> ('u, 'c) world" where
  "call_cleanup i f c w =
     (let (r, u) = f c (user w)
      in (r, w\<lparr>user := u, trace := trace w @ [CleanupDone i c (raised r)]\<rparr>))"

definition read_clock :: "'u env \<Rightarrow> ('u, 'c) world \<Rightarrow> pyfloat \<times> ('u, 'c) world" where
  "read_clock env w = (let (t, u) = time_time env (user w) in (Fin t, w\<lparr>user := u\<rparr>))"

section \<open>run_benchmark\<close>

text \<open>The warm-up loop: \<open>k\<close> calls of the operation, stopped by the first exception.\<close>

fun warmup_loop ::
  "nat \<Rightarrow> (('u, 'c) world \<Rightarrow> (exn + 'r) \<times> ('u, 'c) world) \<Rightarrow> ('u, 'c) world \<Rightarrow> (exn + unit) \<times> ('u, 'c) world" where
  "warmup_loop 0 f w = (Inr (), w)"
| "warmup_loop (Suc k) f w =
     (case f w of
        (Inl e, w1) \<Rightarrow> (Inl e, w1)
      | (Inr v, w1) \<Rightarrow> warmup_loop k f w1)"

text \<open>
  The timed loop, \<open>k\<close> iterations left, \<open>i\<close> the loop index, \<open>samples\<close> the list
  \<open>times\<close> so far. The progress line is printed text and changes nothing here.
\<close>

fun timed_loop ::
  "'u env \<Rightarrow> (('u, 'c) world \<Rightarrow> (exn + 'r) \<times> ('u, 'c) world) \<Rightarrow>
   (int \<Rightarrow> pyfloat \<Rightarrow> 'r \<Rightarrow> 'u \<Rightarrow> (exn + unit) \<times> 'u) option \<Rightarrow>
   nat \<Rightarrow> int \<Rightarrow> pyfloat list \<Rightarrow> ('u, 'c) world \<Rightarrow> (exn + pyfloat list) \<times> ('u, 'c) world" where
  "timed_loop env f on_iteration 0 i samples w = (Inr samples, w)"
| "timed_loop env f on_iteration (Suc k) i samples w =
     (let (start_time, w1) = read_clock env w in
      case f w1 of
        (Inl e, w2) \<Rightarrow> (Inl e, w2)
      | (Inr result, w2) \<Rightarrow>
          (let (end_time, w3) = read_clock env w2;
               duration = fmul (fsub end_time start_time) (Fin 1000)
           in case on_iteration of
                None \<Rightarrow> timed_loop env f on_iteration k (i + 1) (samples @ [duration]) w3
              | Some g \<Rightarrow>
                  (case g i duration result (user w3) of
                     (Inl e, u) \<Rightarrow> (Inl e, w3\<lparr>user := u\<rparr>)
                   | (Inr v, u) \<Rightarrow>
                       timed_loop env f on_iteration k (i + 1) (samples @ [duration])
                         (w3\<lparr>user := u\<rparr>))))"

text \<open>
  Saving one result, lines 97 to 101: the file is opened for writing, which creates it
  empty or empties it, and \<open>json.dump(results, None, 2)\<close> is called with three positional
  arguments where the function takes two: the call raises TypeError before anything is
  written, the \<open>with\<close> block closes the file, and the exception leaves \<open>run_benchmark\<close>.
\<close>

definition save_result :: "string \<Rightarrow> pydict \<Rightarrow> ('u, 'c) world \<Rightarrow> (exn + unit) \<times> ('u, 'c) world" where
  "save_result file_name results w = (Inl TypeError, w\<lparr>files := (files w)(file_name \<mapsto> [])\<rparr>)"

text \<open>Lines 54 to 57: the warm-up, \<open>min(10, iterations // 10)\<close> untimed calls.\<close>

definition warm_up ::
  "nat \<Rightarrow> ('c option \<Rightarrow> 'u \<Rightarrow> (exn + 'r) \<times> 'u) \<Rightarrow> 'c option \<Rightarrow> int \<Rightarrow> ('u, 'r) bench_options \<Rightarrow>
   ('u, 'c) world \<Rightarrow> (exn + unit) \<times> ('u, 'c) world" where
  "warm_up tag fn args iterations options w =
     (if bo_warmup options
      then warmup_loop (nat (min 10 (iterations div 10))) (call_fn tag fn args) w
      else (Inr (), w))"

text \<open>Lines 80 to 103: the statistics of the samples, the optional saving, the result.\<close>

definition finish_benchmark ::
  "'u env \<Rightarrow> string \<Rightarrow> int \<Rightarrow> ('u, 'r) bench_options \<Rightarrow> pyfloat list \<Rightarrow> ('u, 'c) world \<Rightarrow>
   (exn + pydict) \<times> ('u, 'c) world" where
  "finish_benchmark env fn_name iterations options samples w =
     (case statistics (case bo_name options of Some n \<Rightarrow> n | None \<Rightarrow> fn_name)
             iterations samples (now_iso env (user w)) of
        Inl e \<Rightarrow> (Inl e, w)
      | Inr results \<Rightarrow>
          (case bo_save_file options of
             None \<Rightarrow> (Inr results, w)
           | Some file_name \<Rightarrow>
               if file_name = [] then (Inr results, w)
               else (case save_result file_name results w of
                       (Inl e, w1) \<Rightarrow> (Inl e, w1)
                     | (Inr v, w1) \<Rightarrow> (Inr results, w1))))"

definition run_benchmark ::
  "'u env \<Rightarrow> nat \<Rightarrow> ('c option \<Rightarrow> 'u \<Rightarrow> (exn + 'r) \<times> 'u) \<Rightarrow> string \<Rightarrow> 'c option \<Rightarrow> int \<Rightarrow>
   ('u, 'r) bench_options \<Rightarrow> ('u, 'c) world \<Rightarrow> (exn + pydict) \<times> ('u, 'c) world" where
  "run_benchmark env tag fn fn_name args iterations options w =
     (case warm_up tag fn args iterations options w of
        (Inl e, w1) \<Rightarrow> (Inl e, w1)
      | (Inr v, w1) \<Rightarrow>
          (case timed_loop env (call_fn tag fn args) (bo_on_iteration options)
                  (nat iterations) 0 [] w1 of
             (Inl e, w2) \<Rightarrow> (Inl e, w2)
           | (Inr samples, w2) \<Rightarrow>
               finish_benchmark env fn_name iterations options samples w2))"

section \<open>run_suite\<close>

text \<open>\<open>str.lower\<close> and \<open>str.replace(' ', '_')\<close>, on ASCII text.\<close>

definition lower_char :: "char \<Rightarrow> char" where
  "lower_char c =
     (case map_of (zip ''ABCDEFGHIJKLMNOPQRSTUVWXYZ'' ''abcdefghijklmnopqrstuvwxyz'') c of
        Some d \<Rightarrow> d
      | None \<Rightarrow> c)"

definition bench_file_name :: "string \<Rightarrow> string \<Rightarrow> string" where
  "bench_file_name suite_name name =
     suite_name @ ''_'' @
     map lower_char (map (\<lambda>c. if c = CHR '' '' then CHR ''_'' else c) name) @ ''.json''"

text \<open>
  Lines 180 to 184: the entry of a benchmark that failed, with \<open>str(e)\<close> and the text of
  \<open>traceback.format_exc()\<close>.
\<close>

definition failure_entry :: "'u env \<Rightarrow> string \<Rightarrow> exn \<Rightarrow> pyval" where
  "failure_entry env name e =
     VDict [(''name'', VStr name), (''error'', VStr (exn_message e)),
            (''stack'', VStr (format_exc env e))]"

text \<open>Lines 136 to 138: \<open>setup_result\<close> is \<open>None\<close>, or what \<open>setup\<close> returns.\<close>

definition run_setup ::
  "nat \<Rightarrow> ('u, 'c, 'r) benchmark \<Rightarrow> ('u, 'c) world \<Rightarrow> (exn + 'c option) \<times> ('u, 'c) world" where
  "run_setup i benchmark w =
     (case b_setup benchmark of
        None \<Rightarrow> (Inr None, w)
      | Some s \<Rightarrow> call_setup i s w)"

text \<open>
  Lines 141 to 147: the options handed to \<open>run_benchmark\<close>. The entry \<open>save_file\<close> is
  \<open>options.get("save_individual") and f"..."\<close>: the file name when \<open>save_individual\<close> is
  set, a false value otherwise.
\<close>

definition make_bench_options ::
  "string \<Rightarrow> suite_options \<Rightarrow> ('u, 'c, 'r) benchmark \<Rightarrow> ('u, 'r) bench_options" where
  "make_bench_options suite_name options benchmark =
     \<lparr>bo_name = Some (b_name benchmark),
      bo_warmup = o_warmup options,
      bo_progress = o_verbose options,
      bo_save_file =
        (if o_save_individual options
         then Some (bench_file_name suite_name (b_name benchmark)) else None),
      bo_on_iteration = None\<rparr>"

text \<open>Lines 164 and 165: cleanup, when the key is there and \<open>setup_result is not None\<close>.\<close>

definition run_cleanup ::
  "nat \<Rightarrow> ('u, 'c, 'r) benchmark \<Rightarrow> 'c option \<Rightarrow> ('u, 'c) world \<Rightarrow> (exn + unit) \<times> ('u, 'c) world" where
  "run_cleanup i benchmark setup_result w =
     (case b_cleanup benchmark of
        None \<Rightarrow> (Inr (), w)
      | Some c \<Rightarrow>
          (case setup_result of
             None \<Rightarrow> (Inr (), w)
           | Some ctx \<Rightarrow> call_cleanup i c ctx w))"

text \<open>
  The body of the loop over the benchmarks, lines 132 to 184: everything between \<open>try\<close>
  and \<open>except Exception\<close>, and the entry appended to the list of results.
\<close>

definition run_one ::
  "'u env \<Rightarrow> nat \<Rightarrow> string \<Rightarrow> suite_options \<Rightarrow> ('u, 'c, 'r) benchmark \<Rightarrow> ('u, 'c) world \<Rightarrow>
   pyval \<times> ('u, 'c) world" where
  "run_one env i suite_name options benchmark w =
     (case run_setup i benchmark w of
        (Inl e, w1) \<Rightarrow> (failure_entry env (b_name benchmark) e, w1)
      | (Inr setup_result, w1) \<Rightarrow>
          (case run_benchmark env i (b_fn benchmark) (b_fn_name benchmark) setup_result
                  (case b_iterations benchmark of Some n \<Rightarrow> n | None \<Rightarrow> 100)
                  (make_bench_options suite_name options benchmark) w1 of
             (Inl e, w2) \<Rightarrow> (failure_entry env (b_name benchmark) e, w2)
           | (Inr result, w2) \<Rightarrow>
               (case run_cleanup i benchmark setup_result w2 of
                  (Inl e, w3) \<Rightarrow> (failure_entry env (b_name benchmark) e, w3)
                | (Inr v, w3) \<Rightarrow> (VDict result, w3))))"

fun run_benchmarks ::
  "'u env \<Rightarrow> string \<Rightarrow> suite_options \<Rightarrow> nat \<Rightarrow> ('u, 'c, 'r) benchmark list \<Rightarrow> ('u, 'c) world \<Rightarrow>
   pyval list \<times> ('u, 'c) world" where
  "run_benchmarks env suite_name options i [] w = ([], w)"
| "run_benchmarks env suite_name options i (b # bs) w =
     (let (r, w1) = run_one env i suite_name options b w;
          (rs, w2) = run_benchmarks env suite_name options (Suc i) bs w1
      in (r # rs, w2))"

definition run_suite ::
  "'u env \<Rightarrow> ('u, 'c, 'r) suite \<Rightarrow> suite_options \<Rightarrow> ('u, 'c) world \<Rightarrow> pydict \<times> ('u, 'c) world" where
  "run_suite env suite options w =
     (let timestamp = now_iso env (user w);
          (rs, w1) = run_benchmarks env (s_name suite) options 0 (s_benchmarks suite) w;
          suite_results =
            [(''name'', VStr (s_name suite)),
             (''description'', VStr (case s_description suite of Some d \<Rightarrow> d | None \<Rightarrow> [])),
             (''benchmarks'', VList rs),
             (''timestamp'', VStr timestamp),
             (''implementation'', VStr ''python'')]
      in case o_save_file options of
           None \<Rightarrow> (suite_results, w1)
         | Some file_name \<Rightarrow>
             if file_name = [] then (suite_results, w1)
             else (suite_results,
                   w1\<lparr>files := (files w1)(file_name \<mapsto> json_dumps env (VDict suite_results))\<rparr>))"

section \<open>main\<close>




section \<open>Reading the record of calls\<close>

fun ev_tag :: "'c event \<Rightarrow> nat" where
  "ev_tag (SetupDone i r) = i"
| "ev_tag (FnDone i a x) = i"
| "ev_tag (CleanupDone i c x) = i"

fun is_cleanup :: "'c event \<Rightarrow> bool" where
  "is_cleanup (CleanupDone i c x) = True"
| "is_cleanup ev = False"

fun is_fn :: "'c event \<Rightarrow> bool" where
  "is_fn (FnDone i a x) = True"
| "is_fn ev = False"

text \<open>The events a run added to the record, and those of them of the benchmark at position \<open>i\<close>.\<close>

definition new_events :: "('u, 'c) world \<Rightarrow> ('u, 'c) world \<Rightarrow> 'c event list" where
  "new_events w w1 = drop (length (trace w)) (trace w1)"

definition events_of :: "nat \<Rightarrow> 'c event list \<Rightarrow> 'c event list" where
  "events_of i evs = filter (\<lambda>ev. ev_tag ev = i) evs"

definition success_keys :: "string list" where
  "success_keys = [''name'', ''iterations'', ''total'', ''mean'', ''median'', ''min'', ''max'',
                   ''p95'', ''timestamp'']"

definition failure_keys :: "string list" where
  "failure_keys = [''name'', ''error'', ''stack'']"

definition is_success_entry :: "string \<Rightarrow> pyval \<Rightarrow> bool" where
  "is_success_entry name r =
     (case r of
        VDict d \<Rightarrow> keys d = success_keys \<and> map_of d ''name'' = Some (VStr name)
      | _ \<Rightarrow> False)"

definition is_failure_entry :: "string \<Rightarrow> pyval \<Rightarrow> bool" where
  "is_failure_entry name r =
     (case r of
        VDict d \<Rightarrow> keys d = failure_keys \<and> map_of d ''name'' = Some (VStr name)
      | _ \<Rightarrow> False)"

definition iterations_of :: "('u, 'c, 'r) benchmark \<Rightarrow> int" where
  "iterations_of b = (case b_iterations b of Some n \<Rightarrow> n | None \<Rightarrow> 100)"

definition all_returned :: "nat \<Rightarrow> 'c option \<Rightarrow> 'c event list \<Rightarrow> bool" where
  "all_returned i a evs = (\<forall>ev\<in>set evs. ev = FnDone i a None)"

text \<open>
  What a loop over the operation leaves: calls that returned, and when the loop ends with
  an exception of the operation, one more call, which raised it.
\<close>

definition loop_events :: "nat \<Rightarrow> 'c option \<Rightarrow> exn option \<Rightarrow> 'c event list \<Rightarrow> bool" where
  "loop_events i a x evs =
     (all_returned i a evs \<or>
      (\<exists>pre e. evs = pre @ [FnDone i a (Some e)] \<and> all_returned i a pre \<and> x = Some e))"

definition setup_events :: "('u, 'c, 'r) benchmark \<Rightarrow> nat \<Rightarrow> 'c option \<Rightarrow> 'c event list" where
  "setup_events b i ctx = (case b_setup b of None \<Rightarrow> [] | Some s \<Rightarrow> [SetupDone i (Inr ctx)])"

text \<open>
  The records one pass of the loop body can leave, with the entry it appends: setup
  raised; the operation raised in the warm-up or in a timed iteration; the executor failed
  after the calls (statistics or saving); the benchmark succeeded and no cleanup was due;
  cleanup was called and returned, or raised. \<open>run_one\<close> is shown below to leave one of
  these and nothing else.
\<close>

inductive bench_outcome ::
  "'u env \<Rightarrow> nat \<Rightarrow> ('u, 'c, 'r) benchmark \<Rightarrow> pyval \<Rightarrow> 'c event list \<Rightarrow> bool" for env i b where
  setup_raised:
    "b_setup b \<noteq> None \<Longrightarrow>
     bench_outcome env i b (failure_entry env (b_name b) e) [SetupDone i (Inl e)]"
| fn_raised:
    "(b_setup b = None \<longrightarrow> ctx = None) \<Longrightarrow> all_returned i ctx pre \<Longrightarrow>
     bench_outcome env i b (failure_entry env (b_name b) e)
       (setup_events b i ctx @ pre @ [FnDone i ctx (Some e)])"
| executor_failed:
    "(b_setup b = None \<longrightarrow> ctx = None) \<Longrightarrow> all_returned i ctx fs \<Longrightarrow>
     (1 \<le> iterations_of b \<longrightarrow> fs \<noteq> []) \<Longrightarrow>
     bench_outcome env i b (failure_entry env (b_name b) e) (setup_events b i ctx @ fs)"
| no_cleanup:
    "(b_setup b = None \<longrightarrow> ctx = None) \<Longrightarrow> all_returned i ctx fs \<Longrightarrow>
     (1 \<le> iterations_of b \<longrightarrow> fs \<noteq> []) \<Longrightarrow>
     b_cleanup b = None \<or> ctx = None \<Longrightarrow> is_success_entry (b_name b) r \<Longrightarrow>
     bench_outcome env i b r (setup_events b i ctx @ fs)"
| cleanup_returned:
    "b_setup b \<noteq> None \<Longrightarrow> b_cleanup b \<noteq> None \<Longrightarrow> all_returned i (Some c) fs \<Longrightarrow>
     (1 \<le> iterations_of b \<longrightarrow> fs \<noteq> []) \<Longrightarrow> is_success_entry (b_name b) r \<Longrightarrow>
     bench_outcome env i b r (setup_events b i (Some c) @ fs @ [CleanupDone i c None])"
| cleanup_raised:
    "b_setup b \<noteq> None \<Longrightarrow> b_cleanup b \<noteq> None \<Longrightarrow> all_returned i (Some c) fs \<Longrightarrow>
     (1 \<le> iterations_of b \<longrightarrow> fs \<noteq> []) \<Longrightarrow>
     bench_outcome env i b (failure_entry env (b_name b) e)
       (setup_events b i (Some c) @ fs @ [CleanupDone i c (Some e)])"

text \<open>\<open>suite_results["benchmarks"]\<close> of a suite result.\<close>

definition benchmarks_of :: "pydict \<Rightarrow> pyval list" where
  "benchmarks_of res = (case map_of res ''benchmarks'' of Some (VList rs) \<Rightarrow> rs | _ \<Rightarrow> [])"

section \<open>A small suite to run\<close>

text \<open>
  The user state of the examples is a counter that the clock reads (in seconds) and
  advances by one; the operations leave it alone, so every timed call lasts one second.
  The traceback text of the example environment has the header and the last line, and no
  frame lines.
  Benchmark A has no setup and succeeds; B has a setup that returns the context 7, an
  operation that raises, and a cleanup; C has a setup that returns \<open>None\<close> and a cleanup;
  D has a setup that returns the context 7 and a cleanup, and succeeds.
\<close>

definition ex_env :: "nat env" where
  "ex_env = \<lparr>time_time = (\<lambda>u. (of_nat u, Suc u)),
             now_iso = (\<lambda>u. ''2024-01-01T00:00:00''),
             json_dumps = (\<lambda>v. ''{}''),
             format_exc = (\<lambda>e. ''Traceback (most recent call last):'' @ [CHR 0x0A] @
                                exn_class e @ '': '' @ exn_message e @ [CHR 0x0A])\<rparr>"

definition ex_world :: "(nat, nat) world" where
  "ex_world = \<lparr>user = 0, files = Map.empty, trace = []\<rparr>"

definition boom :: exn where
  "boom = Exn ''RuntimeError'' ''boom''"

definition bench_a :: "(nat, nat, unit) benchmark" where
  "bench_a = \<lparr>b_name = ''Bench A'', b_fn = (\<lambda>a u. (Inr (), u)), b_fn_name = ''op_a'',
              b_iterations = Some 5, b_setup = None, b_cleanup = None\<rparr>"

definition bench_b :: "(nat, nat, unit) benchmark" where
  "bench_b = \<lparr>b_name = ''Bench B'', b_fn = (\<lambda>a u. (Inl boom, u)), b_fn_name = ''op_b'',
              b_iterations = Some 10, b_setup = Some (\<lambda>u. (Inr (Some 7), u)),
              b_cleanup = Some (\<lambda>c u. (Inr (), u))\<rparr>"

definition bench_c :: "(nat, nat, unit) benchmark" where
  "bench_c = \<lparr>b_name = ''Bench C'', b_fn = (\<lambda>a u. (Inr (), u)), b_fn_name = ''op_c'',
              b_iterations = Some 1, b_setup = Some (\<lambda>u. (Inr None, u)),
              b_cleanup = Some (\<lambda>c u. (Inr (), u))\<rparr>"

definition bench_d :: "(nat, nat, unit) benchmark" where
  "bench_d = \<lparr>b_name = ''Bench D'', b_fn = (\<lambda>a u. (Inr (), u)), b_fn_name = ''op_d'',
              b_iterations = Some 1, b_setup = Some (\<lambda>u. (Inr (Some 7), u)),
              b_cleanup = Some (\<lambda>c u. (Inr (), u))\<rparr>"

definition ex_suite :: "(nat, nat, unit) suite" where
  "ex_suite = \<lparr>s_name = ''demo'', s_description = None,
               s_benchmarks = [bench_a, bench_b, bench_c, bench_d]\<rparr>"

text \<open>The options and the command line of a run that saves, as \<open>main\<close> sets them.\<close>

definition ex_save_options :: suite_options where
  "ex_save_options = default_suite_options\<lparr>o_save_individual := True\<rparr>"



text \<open>
  The double nearest to 0.1, its successor among the doubles, and the double
  0.30000000000000004.
\<close>

definition tenth :: rat where
  "tenth = 3602879701896397 / 2 ^ 55"

definition three_tenths :: rat where
  "three_tenths = 5404319552844596 / 2 ^ 54"

definition tenth_next :: rat where
  "tenth_next = 7205759403792795 / 2 ^ 56"

section \<open>Properties\<close>

subsection \<open>Rounding to binary64\<close>

lemma pow2_powi: "pow2 k = 2 powi k"
  by (simp add: pow2_def power_int_def inverse_eq_divide power_one_over)

lemma pow2_pos: "0 < pow2 k"
  by (simp add: pow2_def)

lemma pow2_add: "pow2 (a + b) = pow2 a * pow2 b"
  by (simp add: pow2_powi power_int_add)

lemma pow2_nat: "pow2 (int n) = 2 ^ n"
  by (simp add: pow2_def)

lemma pow2_mono: "a \<le> b \<Longrightarrow> pow2 a \<le> pow2 b"
  by (simp add: pow2_powi power_int_increasing)

lemma pow2_strict_mono: "a < b \<Longrightarrow> pow2 a < pow2 b"
  by (simp add: pow2_powi power_int_strict_increasing)

lemma pow2_diff_nat: "pow2 (int a - int b) = 2 ^ a / 2 ^ b"
proof -
  have "pow2 (int a - int b) * pow2 (int b) = pow2 (int a)"
    using pow2_add [of "int a - int b" "int b"] by simp
  then show ?thesis
    by (simp add: pow2_nat field_simps)
qed

lemma ilog2_bounds:
  assumes "0 < x"
  shows "pow2 (ilog2 x) \<le> x \<and> x < pow2 (ilog2 x + 1)"
proof -
  obtain p q where pq: "quotient_of x = (p, q)"
    by (cases "quotient_of x")
  have q: "0 < q" using pq by (rule quotient_of_denom_pos)
  have x: "x = of_int p / of_int q" using pq by (rule quotient_of_div)
  have p: "0 < p"
    using assms q unfolding x by (simp add: zero_less_divide_iff)
  define bp where "bp = nat (bitlen p)"
  define bq where "bq = nat (bitlen q)"
  have bpp: "0 < bitlen p" "0 < bitlen q"
    using p q bitlen_eq_zero_iff [of p] bitlen_eq_zero_iff [of q] bitlen_nonneg [of p] bitlen_nonneg [of q]
    by linarith+
  have bp: "bitlen p = int bp" "bitlen q = int bq" "0 < bp" "0 < bq"
    using bpp by (simp_all add: bp_def bq_def)
  have n1: "nat (int bp - 1) = bp - 1" "nat (int bq - 1) = bq - 1"
    by linarith+
  have pb: "2 ^ (bp - 1) \<le> p" "p < 2 ^ bp"
    using bitlen_bounds [OF p] unfolding bp(1) n1 by simp_all
  have qb: "2 ^ (bq - 1) \<le> q" "q < 2 ^ bq"
    using bitlen_bounds [OF q] unfolding bp(2) n1 by simp_all
  have pr: "(2::rat) ^ (bp - 1) \<le> of_int p" "(of_int p :: rat) < 2 ^ bp"
    using pb by (metis of_int_le_iff of_int_numeral of_int_power, metis of_int_less_iff of_int_numeral of_int_power)
  have qr: "(2::rat) ^ (bq - 1) \<le> of_int q" "(of_int q :: rat) < 2 ^ bq"
    using qb by (metis of_int_le_iff of_int_numeral of_int_power, metis of_int_less_iff of_int_numeral of_int_power)
  have qpos: "(0::rat) < of_int q" using q by simp
  have up: "x < pow2 (int bp - int bq + 1)"
  proof -
    have "pow2 (int bp - int bq + 1) = 2 ^ bp / 2 ^ (bq - 1)"
      using pow2_diff_nat [of bp "bq - 1"] bp(4) by (simp add: of_nat_diff algebra_simps)
    moreover have "of_int p / of_int q < (2::rat) ^ bp / 2 ^ (bq - 1)"
      using pr qr qpos p by (intro frac_less) simp_all
    ultimately show ?thesis by (simp add: x)
  qed
  have lo: "pow2 (int bp - int bq - 1) \<le> x"
  proof -
    have "pow2 (int bp - int bq - 1) = 2 ^ (bp - 1) / 2 ^ bq"
      using pow2_diff_nat [of "bp - 1" bq] bp(3) by (simp add: of_nat_diff algebra_simps)
    moreover have "(2::rat) ^ (bp - 1) / 2 ^ bq \<le> of_int p / of_int q"
      using pr qr qpos p by (intro frac_le) simp_all
    ultimately show ?thesis by (simp add: x)
  qed
  show ?thesis
  proof (cases "pow2 (bitlen p - bitlen q) \<le> x")
    case True
    then show ?thesis using up by (simp add: ilog2_def pq bp)
  next
    case False
    then show ?thesis using lo by (simp add: ilog2_def pq bp)
  qed
qed

lemma round_half_even_bound: "\<bar>of_int (round_half_even y) - y\<bar> \<le> 1 / 2"
proof -
  have "of_int \<lfloor>y\<rfloor> \<le> y" "y < of_int \<lfloor>y\<rfloor> + 1" by linarith+
  then show ?thesis
    unfolding round_half_even_def Let_def by (auto simp: abs_le_iff)
qed

lemma round_half_even_nonneg: "0 \<le> y \<Longrightarrow> 0 \<le> round_half_even y"
  unfolding round_half_even_def Let_def by auto



lemma ilog2_unique:
  assumes "pow2 e \<le> x" "x < pow2 (e + 1)"
  shows "ilog2 x = e"
proof -
  have "0 < x" using assms(1) pow2_pos [of e] by linarith
  then have b: "pow2 (ilog2 x) \<le> x" "x < pow2 (ilog2 x + 1)"
    using ilog2_bounds [of x] by simp_all
  have "\<not> ilog2 x < e"
  proof
    assume "ilog2 x < e"
    then have "pow2 (ilog2 x + 1) \<le> pow2 e" by (intro pow2_mono) simp
    then show False using b(2) assms(1) by linarith
  qed
  moreover have "\<not> e < ilog2 x"
  proof
    assume "e < ilog2 x"
    then have "pow2 (e + 1) \<le> pow2 (ilog2 x)" by (intro pow2_mono) simp
    then show False using b(1) assms(2) by linarith
  qed
  ultimately show ?thesis by simp
qed

lemma round_double_at:
  assumes "pow2 e \<le> x" "x < pow2 (e + 1)" "- 1022 \<le> e" "e \<le> 1022"
  shows "round_double x = Fin (of_int (round_half_even (x / pow2 (e - 52))) * pow2 (e - 52))"
proof -
  have x: "0 < x" using assms(1) pow2_pos [of e] by linarith
  have il: "ilog2 x = e" using assms(1,2) by (rule ilog2_unique)
  define q where "q = e - 52"
  define m where "m = round_half_even (x / pow2 q)"
  have qmax: "max (ilog2 x - 52) (- 1074) = q" using assms(3) by (simp add: q_def il)
  have pq: "0 < pow2 q" by (rule pow2_pos)
  have "pow2 (e + 1) = pow2 q * pow2 53" using pow2_add [of q 53] by (simp add: q_def add.commute)
  then have "x / pow2 q < pow2 53" using assms(2) pq by (simp add: field_simps)
  then have "x / pow2 q < 2 ^ 53" by (simp add: pow2_def)
  moreover have "\<bar>of_int m - x / pow2 q\<bar> \<le> 1 / 2"
    unfolding m_def by (rule round_half_even_bound)
  ultimately have "(of_int m :: rat) < 2 ^ 53 + 1" by linarith
  then have "(of_int m :: rat) < of_int (2 ^ 53 + 1)" by simp
  then have "m < 2 ^ 53 + 1" by (simp only: of_int_less_iff)
  then have "m \<le> 2 ^ 53" by simp
  then have "(of_int m :: rat) \<le> of_int (2 ^ 53)" by (simp only: of_int_le_iff)
  then have "(of_int m :: rat) \<le> pow2 53" by (simp add: pow2_def)
  then have "of_int m * pow2 q \<le> pow2 53 * pow2 q" using pq by (intro mult_right_mono) simp_all
  also have "\<dots> = pow2 (e + 1)" using pow2_add [of 53 q] by (simp add: q_def add.commute)
  also have "\<dots> < pow2 1024" using assms(4) by (intro pow2_strict_mono) simp
  finally have "\<not> pow2 1024 \<le> of_int m * pow2 q" by simp
  then show ?thesis
    using x unfolding round_double_def Let_def by (simp add: qmax m_def q_def)
qed

lemma floor_rat_numeral:
  "\<lfloor>(numeral a :: rat) / numeral b\<rfloor> = numeral a div numeral b"
  using floor_divide_of_int_eq [of "numeral a" "numeral b", where ?'a = rat] by simp


lemma literal_0_95_value: "literal_0_95 = Fin (8556839292003942 / 2 ^ 53)"
  unfolding literal_0_95_def
  using round_double_at [of "- 1" "95 / 100"]
  by (simp add: pow2_def round_half_even_def Let_def floor_rat_numeral)

lemma round_double_normal:
  assumes "0 < x" "- 1022 \<le> ilog2 x"
  shows "\<exists>r. 0 < r \<and> \<bar>r - x\<bar> \<le> x / 2 ^ 53 \<and>
             round_double x = (if pow2 1024 \<le> r then PInf else Fin r)"
proof -
  define q where "q = ilog2 x - 52"
  define r where "r = of_int (round_half_even (x / pow2 q)) * pow2 q"
  have qmax: "max (ilog2 x - 52) (- 1074) = q"
    using assms(2) by (simp add: q_def)
  have rd: "round_double x = (if pow2 1024 \<le> r then PInf else Fin r)"
    using assms(1) by (simp add: round_double_def Let_def qmax r_def)
  have pq: "0 < pow2 q" by (rule pow2_pos)
  have "\<bar>of_int (round_half_even (x / pow2 q)) - x / pow2 q\<bar> \<le> 1 / 2"
    by (rule round_half_even_bound)
  then have "\<bar>of_int (round_half_even (x / pow2 q)) - x / pow2 q\<bar> * pow2 q \<le> 1 / 2 * pow2 q"
    using pq by (intro mult_right_mono) simp_all
  moreover have "\<bar>of_int (round_half_even (x / pow2 q)) - x / pow2 q\<bar> * pow2 q = \<bar>r - x\<bar>"
  proof -
    have "(of_int (round_half_even (x / pow2 q)) - x / pow2 q) * pow2 q = r - x"
      using pq by (simp add: r_def left_diff_distrib)
    then have "\<bar>r - x\<bar> = \<bar>of_int (round_half_even (x / pow2 q)) - x / pow2 q\<bar> * \<bar>pow2 q\<bar>"
      by (simp add: abs_mult [symmetric])
    then show ?thesis using pq by simp
  qed
  ultimately have err: "\<bar>r - x\<bar> \<le> pow2 q / 2" by simp
  have "pow2 (ilog2 x) = pow2 q * pow2 52"
    using pow2_add [of q 52] by (simp add: q_def)
  then have pq2: "pow2 q = pow2 (ilog2 x) / 2 ^ 52"
    by (simp add: pow2_def)
  have "pow2 (ilog2 x) \<le> x" using ilog2_bounds [OF assms(1)] by simp
  then have "pow2 q / 2 \<le> x / 2 ^ 53"
    by (simp add: pq2)
  with err have e2: "\<bar>r - x\<bar> \<le> x / 2 ^ 53" by simp
  have "x / 2 ^ 53 < x" using assms(1) by simp
  with e2 have "0 < r" by linarith
  with e2 rd show ?thesis by blast
qed

lemma ilog2_nonneg: assumes "1 \<le> x" shows "0 \<le> ilog2 x"
proof (rule ccontr)
  assume "\<not> 0 \<le> ilog2 x"
  then have "ilog2 x + 1 \<le> 0" by simp
  then have "pow2 (ilog2 x + 1) \<le> pow2 0" by (rule pow2_mono)
  moreover have "x < pow2 (ilog2 x + 1)" using ilog2_bounds [of x] assms by simp
  ultimately show False using assms by (simp add: pow2_def)
qed

lemma ilog2_ge: assumes "pow2 k \<le> x" shows "k \<le> ilog2 x"
proof (rule ccontr)
  assume "\<not> k \<le> ilog2 x"
  then have "ilog2 x + 1 \<le> k" by simp
  then have "pow2 (ilog2 x + 1) \<le> pow2 k" by (rule pow2_mono)
  moreover have "0 < x" using assms pow2_pos [of k] by linarith
  then have "x < pow2 (ilog2 x + 1)" using ilog2_bounds [of x] by simp
  ultimately show False using assms by simp
qed

lemma float_of_int_pos:
  assumes "1 \<le> n"
  shows "(float_of_int n = Inl OverflowError \<and> 2 ^ 1023 \<le> n) \<or>
         (\<exists>r. float_of_int n = Inr r \<and> 0 < r \<and> r < 2 ^ 1024 \<and> \<bar>r - of_int n\<bar> \<le> of_int n / 2 ^ 53)"
proof -
  have n: "(1::rat) \<le> of_int n" using assms by simp
  then have "0 \<le> ilog2 (of_int n)" by (rule ilog2_nonneg)
  then have "- 1022 \<le> ilog2 (of_int n)" by simp
  moreover have "(0::rat) < of_int n" using n by simp
  ultimately obtain r where r: "0 < r" "\<bar>r - of_int n\<bar> \<le> of_int n / 2 ^ 53"
      "round_double (of_int n) = (if pow2 1024 \<le> r then PInf else Fin r)"
    using round_double_normal [of "of_int n"] by blast
  show ?thesis
  proof (cases "pow2 1024 \<le> r")
    case True
    then have f: "float_of_int n = Inl OverflowError"
      by (simp add: float_of_int_def r(3))
    have "(2::rat) ^ 1024 \<le> r" using True by (simp add: pow2_def)
    then have "(2::rat) ^ 1024 \<le> of_int n + of_int n / 2 ^ 53" using r(2) by linarith
    also have "\<dots> \<le> 2 * of_int n" using n by simp
    finally have "(2::rat) ^ 1023 \<le> of_int n" by simp
    then have "2 ^ 1023 \<le> n"
      by (metis of_int_le_iff of_int_numeral of_int_power)
    with f show ?thesis by simp
  next
    case False
    then have "float_of_int n = Inr r" "r < 2 ^ 1024"
      by (simp_all add: float_of_int_def r(3) pow2_def)
    with r show ?thesis by simp
  qed
qed

lemma literal_0_95_props: "(8556839292003942 / 2 ^ 53 :: rat) * (1 + 1 / 2 ^ 53) * (1 + 1 / 2 ^ 53) < 1"
  "(1/2::rat) \<le> (1 - 1 / 2 ^ 53) * (8556839292003942 / 2 ^ 53)"
  by simp_all

lemma p95_index_bound:
  assumes "1 \<le> n"
  shows "(float_of_int n = Inl OverflowError \<and> p95_index n = Inl OverflowError \<and> 2 ^ 1023 \<le> n) \<or>
         (\<exists>b k. float_of_int n = Inr b \<and> 0 < b \<and> p95_index n = Inr k \<and> 0 \<le> k \<and> k \<le> n - 1)"
proof -
  define c :: rat where "c = 8556839292003942 / 2 ^ 53"
  define e :: rat where "e = 1 / 2 ^ 53"
  have c: "c * (1 + e) * (1 + e) < 1" "1 / 2 \<le> (1 - e) * c" "0 < c" "0 < e" "e < 1" "c * (1 + e) < 1"
    unfolding c_def e_def by simp_all
  from float_of_int_pos [OF assms] show ?thesis
  proof
    assume "float_of_int n = Inl OverflowError \<and> 2 ^ 1023 \<le> n"
    then show ?thesis by (simp add: p95_index_def)
  next
    assume "\<exists>r. float_of_int n = Inr r \<and> 0 < r \<and> r < 2 ^ 1024 \<and> \<bar>r - of_int n\<bar> \<le> of_int n / 2 ^ 53"
    then obtain r where r: "float_of_int n = Inr r" "0 < r" "r < 2 ^ 1024"
        "\<bar>r - of_int n\<bar> \<le> of_int n / 2 ^ 53" by blast
    define a :: rat where "a = of_int n"
    have a: "1 \<le> a" using assms by (simp add: a_def)
    have ae: "a * (1 - e) = a - a / 2 ^ 53" "a * (1 + e) = a + a / 2 ^ 53"
      by (simp_all add: e_def algebra_simps)
    have ra: "a * (1 - e) \<le> r" "r \<le> a * (1 + e)"
      using r(4) unfolding a_def [symmetric] ae by linarith+
    have m: "fmul (Fin r) literal_0_95 = round_double (r * c)"
      by (simp add: literal_0_95_value c_def)
    have "1 * ((1 - e) * c) \<le> a * ((1 - e) * c)"
      using a c by (intro mult_right_mono) simp_all
    then have "1 / 2 \<le> a * (1 - e) * c" using c(2) by (simp add: mult.assoc)
    also have "\<dots> \<le> r * c" using ra(1) c(3) by (intro mult_right_mono) simp_all
    finally have rc: "1 / 2 \<le> r * c" .
    then have "pow2 (- 1) \<le> r * c" by (simp add: pow2_def)
    then have "- 1 \<le> ilog2 (r * c)" by (rule ilog2_ge)
    then have "- 1022 \<le> ilog2 (r * c)" by simp
    moreover have "0 < r * c" using rc by simp
    ultimately obtain s where s: "0 < s" "\<bar>s - r * c\<bar> \<le> r * c / 2 ^ 53"
        "round_double (r * c) = (if pow2 1024 \<le> s then PInf else Fin s)"
      using round_double_normal [of "r * c"] by blast
    have "r * (c * (1 + e)) = r * c + r * c / 2 ^ 53"
      by (simp add: e_def algebra_simps)
    then have s1: "s \<le> r * (c * (1 + e))"
      using s(2) by linarith
    have "r * (c * (1 + e)) < r * 1"
      using r(2) c(6) by (intro mult_strict_left_mono)
    with s1 have sr: "s < r" by simp
    then have "\<not> pow2 1024 \<le> s" using r(3) by (simp add: pow2_def)
    then have p: "p95_index n = Inr \<lfloor>s\<rfloor>"
      using s(1) by (simp add: p95_index_def r(1) m s(3) py_int_def)
    have "r * (c * (1 + e)) \<le> a * (1 + e) * (c * (1 + e))"
      using ra(2) c by (intro mult_right_mono) simp_all
    also have "\<dots> = a * (c * (1 + e) * (1 + e))" by (simp add: algebra_simps)
    also have "\<dots> < a * 1" using a c(1) by (intro mult_strict_left_mono) simp_all
    finally have "s < a" using s1 by simp
    then have "of_int \<lfloor>s\<rfloor> < (of_int n :: rat)"
      unfolding a_def using of_int_floor_le [of s] by linarith
    then have "\<lfloor>s\<rfloor> < n" by simp
    moreover have "0 \<le> \<lfloor>s\<rfloor>" using s(1) by simp
    ultimately show ?thesis using p r(1,2) by simp
  qed
qed


lemma round_half_even_of_int: "round_half_even (of_int k) = k"
  by (simp add: round_half_even_def)

lemma round_double_int:
  assumes "0 < n" "n < 2 ^ 53"
  shows "round_double (of_int n) = Fin (of_int n)"
proof -
  define x :: rat where "x = of_int n"
  define e where "e = ilog2 x"
  have x1: "1 \<le> x" using assms(1) by (simp add: x_def)
  then have x0: "0 < x" by simp
  have b: "pow2 e \<le> x" "x < pow2 (e + 1)"
    using ilog2_bounds [OF x0] by (simp_all add: e_def)
  have e0: "0 \<le> e" unfolding e_def using x1 by (rule ilog2_nonneg)
  have "x < 2 ^ 53" using assms(2) unfolding x_def
    by (metis of_int_less_iff of_int_numeral of_int_power)
  then have x53: "x < pow2 53" by (simp add: pow2_def)
  have e52: "e \<le> 52"
  proof (rule ccontr)
    assume "\<not> e \<le> 52"
    then have "pow2 53 \<le> pow2 e" by (intro pow2_mono) simp
    then show False using b(1) x53 by linarith
  qed
  define k where "k = nat (52 - e)"
  have pk: "pow2 (e - 52) = 1 / 2 ^ k"
  proof -
    have "pow2 (e - 52) * pow2 (int k) = pow2 0"
      using pow2_add [of "e - 52" "int k"] e52 by (simp add: k_def)
    then show ?thesis by (simp add: pow2_nat pow2_def field_simps)
  qed
  have "x / pow2 (e - 52) = of_int (n * 2 ^ k)"
    by (simp add: pk x_def)
  then have "round_half_even (x / pow2 (e - 52)) = n * 2 ^ k"
    by (simp only: round_half_even_of_int)
  then have "of_int (round_half_even (x / pow2 (e - 52))) * pow2 (e - 52) = x"
    by (simp add: pk x_def)
  moreover have "round_double x =
      Fin (of_int (round_half_even (x / pow2 (e - 52))) * pow2 (e - 52))"
    using b e0 e52 by (intro round_double_at) simp_all
  ultimately show ?thesis by (simp add: x_def)
qed

lemma round_double_numeral:
  "(numeral w :: int) < 2 ^ 53 \<Longrightarrow> round_double (numeral w) = Fin (numeral w)"
  using round_double_int [of "numeral w"] by simp

lemma round_double_one: "round_double 1 = Fin 1"
  using round_double_int [of 1] by simp

lemma float_of_int_numeral:
  "(numeral w :: int) < 2 ^ 53 \<Longrightarrow> float_of_int (numeral w) = Inr (numeral w)"
  by (simp add: float_of_int_def round_double_numeral)


subsection \<open>Sorting, and the statistics of a non-empty sample list\<close>

lemma fle_refl: "x \<noteq> NaN \<Longrightarrow> fle x x"
  by (cases x) simp_all

lemma fle_trans: "fle x y \<Longrightarrow> fle y z \<Longrightarrow> fle x z"
  by (cases x; cases y; cases z) simp_all

lemma flt_imp_fle: "flt x y \<Longrightarrow> fle x y"
  by (cases x; cases y) simp_all

lemma not_flt_imp_fle: "\<not> flt y x \<Longrightarrow> x \<noteq> NaN \<Longrightarrow> y \<noteq> NaN \<Longrightarrow> fle x y"
  by (cases x; cases y) simp_all

lemma mset_insort_lt: "mset (insort_lt x ys) = add_mset x (mset ys)"
  by (induction ys) simp_all

lemma mset_py_sorted: "mset (py_sorted xs) = mset xs"
  unfolding py_sorted_def by (induction xs) (simp_all add: mset_insort_lt)

lemma set_py_sorted: "set (py_sorted xs) = set xs"
  using mset_py_sorted [of xs] by (metis set_mset_mset)

lemma length_py_sorted: "length (py_sorted xs) = length xs"
  using mset_py_sorted [of xs] by (metis size_mset)

lemma sorted_insort_lt:
  assumes "sorted_wrt fle ys" "x \<noteq> NaN" "NaN \<notin> set ys"
  shows "sorted_wrt fle (insort_lt x ys)"
  using assms
proof (induction ys)
  case Nil
  then show ?case by simp
next
  case (Cons y ys)
  show ?case
  proof (cases "flt y x")
    case True
    have "set (insort_lt x ys) = insert x (set ys)"
      using mset_insort_lt [of x ys] by (metis set_mset_add_mset_insert set_mset_mset)
    then show ?thesis
      using True Cons by (auto dest: flt_imp_fle)
  next
    case False
    then have xy: "fle x y" using Cons.prems by (intro not_flt_imp_fle) auto
    then have "\<forall>z\<in>set ys. fle x z"
      using Cons.prems(1) by (auto intro: fle_trans)
    then show ?thesis using False xy Cons.prems(1) by simp
  qed
qed

lemma sorted_py_sorted: "NaN \<notin> set xs \<Longrightarrow> sorted_wrt fle (py_sorted xs)"
proof (induction xs)
  case Nil
  then show ?case by (simp add: py_sorted_def)
next
  case (Cons x xs)
  then have "sorted_wrt fle (py_sorted xs)" "x \<noteq> NaN" "NaN \<notin> set (py_sorted xs)"
    by (auto simp: set_py_sorted)
  then have "sorted_wrt fle (insort_lt x (py_sorted xs))" by (rule sorted_insort_lt)
  then show ?case by (simp add: py_sorted_def)
qed

lemma sorted_fle_nth:
  assumes "sorted_wrt fle xs" "NaN \<notin> set xs" "i \<le> j" "j < length xs"
  shows "fle (xs ! i) (xs ! j)"
proof (cases "i = j")
  case True
  then show ?thesis using assms by (auto intro!: fle_refl) (metis nth_mem)
next
  case False
  then have "i < j" using assms(3) by simp
  then show ?thesis using assms(1,4) by (simp add: sorted_wrt_nth_less)
qed


lemma py_sum_nonempty: "xs \<noteq> [] \<Longrightarrow> py_sum xs = VFloat (foldl fadd (hd xs) (tl xs))"
  by (cases xs) (simp_all add: py_sum_def)

lemma py_index_in_range: "0 \<le> k \<Longrightarrow> k < int (length xs) \<Longrightarrow> py_index xs k = Inr (xs ! nat k)"
  by (simp add: py_index_def)

lemma py_index_last: "xs \<noteq> [] \<Longrightarrow> py_index xs (- 1) = Inr (xs ! (length xs - 1))"
  by (cases xs) (simp_all add: py_index_def nat_diff_distrib)

lemma statistics_nonempty:
  assumes "samples \<noteq> []" and n: "n = int (length samples)"
  shows "(statistics name n samples ts = Inl OverflowError \<and> 2 ^ 1023 \<le> n) \<or>
     (\<exists>b k. float_of_int n = Inr b \<and> b \<noteq> 0 \<and> p95_index n = Inr k \<and> 0 \<le> k \<and> k \<le> n - 1 \<and>
        statistics name n samples ts =
          Inr [(''name'', VStr name), (''iterations'', VInt n),
               (''total'', py_sum samples),
               (''mean'', VFloat (fdiv (foldl fadd (hd samples) (tl samples)) b)),
               (''median'', VFloat (py_sorted samples ! (length samples div 2))),
               (''min'', VFloat (py_sorted samples ! 0)),
               (''max'', VFloat (py_sorted samples ! (length samples - 1))),
               (''p95'', VFloat (py_sorted samples ! nat k)),
               (''timestamp'', VStr ts)])"
proof -
  have n1: "1 \<le> n" using assms by (cases samples) simp_all
  have len: "length (py_sorted samples) = length samples" by (rule length_py_sorted)
  have ne: "py_sorted samples \<noteq> []" using assms(1) len by (metis length_0_conv)
  have s: "py_sum samples = VFloat (foldl fadd (hd samples) (tl samples))"
    using assms(1) by (rule py_sum_nonempty)
  from p95_index_bound [OF n1] show ?thesis
  proof
    assume a: "float_of_int n = Inl OverflowError \<and> p95_index n = Inl OverflowError \<and> 2 ^ 1023 \<le> n"
    then have "py_truediv (py_sum samples) n = Inl OverflowError"
      by (simp add: py_truediv_def s)
    then show ?thesis using a by (simp add: statistics_def)
  next
    assume "\<exists>b k. float_of_int n = Inr b \<and> 0 < b \<and> p95_index n = Inr k \<and> 0 \<le> k \<and> k \<le> n - 1"
    then obtain b k where b: "float_of_int n = Inr b" "0 < b"
      and k: "p95_index n = Inr k" "0 \<le> k" "k \<le> n - 1" by blast
    then have td: "py_truediv (py_sum samples) n = Inr (VFloat (fdiv (foldl fadd (hd samples) (tl samples)) b))"
      by (simp add: py_truediv_def s)
    have i1: "py_index (py_sorted samples) (n div 2) = Inr (py_sorted samples ! (length samples div 2))"
    proof -
      have "0 \<le> n div 2" "n div 2 < int (length (py_sorted samples))" "nat (n div 2) = length samples div 2"
        using n1 by (simp_all add: len n nat_div_distrib)
      then show ?thesis using py_index_in_range [of "n div 2" "py_sorted samples"] by simp
    qed
    have i2: "py_index (py_sorted samples) 0 = Inr (py_sorted samples ! 0)"
      using assms(1) by (simp add: py_index_def len)
    have i3: "py_index (py_sorted samples) (- 1) = Inr (py_sorted samples ! (length samples - 1))"
      using py_index_last [OF ne] by (simp add: len)
    have i4: "py_index (py_sorted samples) k = Inr (py_sorted samples ! nat k)"
      using py_index_in_range [of k "py_sorted samples"] k by (simp add: len n)
    have "statistics name n samples ts =
          Inr [(''name'', VStr name), (''iterations'', VInt n),
               (''total'', py_sum samples),
               (''mean'', VFloat (fdiv (foldl fadd (hd samples) (tl samples)) b)),
               (''median'', VFloat (py_sorted samples ! (length samples div 2))),
               (''min'', VFloat (py_sorted samples ! 0)),
               (''max'', VFloat (py_sorted samples ! (length samples - 1))),
               (''p95'', VFloat (py_sorted samples ! nat k)),
               (''timestamp'', VStr ts)]"
      by (simp add: statistics_def Let_def td i1 i2 i3 k(1) i4)
    with b k show ?thesis by blast
  qed
qed

subsection \<open>Claims about the statistics\<close>

lemma p95_index_100: "p95_index 100 = Inr 95"
proof -
  have "round_double (100 * (8556839292003942 / 2 ^ 53)) = Fin 95"
    using round_double_at [of 6 "100 * (8556839292003942 / 2 ^ 53)"]
    by (simp add: pow2_def round_half_even_def Let_def floor_rat_numeral)
  then show ?thesis
    by (simp add: p95_index_def float_of_int_numeral literal_0_95_value py_int_def floor_rat_numeral)
qed


lemma overflow_not_index: "OverflowError \<noteq> IndexError"
  by (simp add: OverflowError_def IndexError_def)

text \<open>
  Claim C10. For every iteration count \<open>n \<ge> 1\<close> the index \<open>int(n * 0.95)\<close>, computed in
  binary64 as the runner computes it, lies between 0 and \<open>n - 1\<close>, so the statistics of
  \<open>n\<close> samples never raise IndexError. The only other outcome is the OverflowError of
  converting an integer of at least \<open>2^1023\<close> to a float, which is not an index error.
\<close>

theorem p95_index_within_bounds:
  assumes "1 \<le> n" "int (length samples) = n"
  shows "(case p95_index n of
            Inr k \<Rightarrow> 0 \<le> k \<and> k \<le> n - 1
          | Inl e \<Rightarrow> e = OverflowError \<and> 2 ^ 1023 \<le> n) \<and>
         statistics name n samples ts \<noteq> Inl IndexError"
proof
  show "case p95_index n of
            Inr k \<Rightarrow> 0 \<le> k \<and> k \<le> n - 1
          | Inl e \<Rightarrow> e = OverflowError \<and> 2 ^ 1023 \<le> n"
    using p95_index_bound [OF assms(1)] by auto
next
  have "samples \<noteq> []" using assms by auto
  from statistics_nonempty [OF this assms(2) [symmetric], of name ts]
  show "statistics name n samples ts \<noteq> Inl IndexError"
    using overflow_not_index by auto
qed

theorem p95_index_within_bounds_witness:
  "(1::int) \<le> 100 \<and> int (length (replicate 100 (Fin 1))) = 100 \<and>
   p95_index 100 = Inr 95 \<and> (95::int) \<le> 100 - 1 \<and>
   statistics ''bench'' 100 (replicate 100 (Fin 1)) ''t'' \<noteq> Inl IndexError"
proof -
  have h: "(1::int) \<le> 100" "int (length (replicate 100 (Fin 1))) = 100"
    by simp_all
  from p95_index_within_bounds [OF h, of "''bench''" "''t''"]
  have "statistics ''bench'' 100 (replicate 100 (Fin 1)) ''t'' \<noteq> Inl IndexError"
    by (rule conjunct2)
  with h p95_index_100 show ?thesis by simp
qed

text \<open>
  Claim C5. For a non-empty list of \<open>n\<close> samples the reported median is the element at
  index \<open>n div 2\<close> of the ascending arrangement of the samples (the upper median for even
  \<open>n\<close>); for the samples 1, 2, 3, 4 it is 3. The statistics fail only with the
  OverflowError of a sample count of at least \<open>2^1023\<close>.
\<close>

theorem median_is_upper_median:
  assumes "samples \<noteq> []" "NaN \<notin> set samples"
  shows "sorted_wrt fle (py_sorted samples) \<and> mset (py_sorted samples) = mset samples \<and>
     (case statistics name (int (length samples)) samples ts of
        Inr r \<Rightarrow> map_of r ''median'' = Some (VFloat (py_sorted samples ! (length samples div 2)))
      | Inl e \<Rightarrow> e = OverflowError \<and> 2 ^ 1023 \<le> int (length samples)) \<and>
     (\<exists>r. statistics name 4 [Fin 1, Fin 2, Fin 3, Fin 4] ts = Inr r \<and>
          map_of r ''median'' = Some (VFloat (Fin 3)))"
proof (intro conjI)
  show "sorted_wrt fle (py_sorted samples)" using assms(2) by (rule sorted_py_sorted)
  show "mset (py_sorted samples) = mset samples" by (rule mset_py_sorted)
  show "case statistics name (int (length samples)) samples ts of
        Inr r \<Rightarrow> map_of r ''median'' = Some (VFloat (py_sorted samples ! (length samples div 2)))
      | Inl e \<Rightarrow> e = OverflowError \<and> 2 ^ 1023 \<le> int (length samples)"
    using statistics_nonempty [OF assms(1) refl, of name ts] by auto
  have "[Fin 1, Fin 2, Fin 3, Fin 4] \<noteq> []" "(4::int) = int (length [Fin 1, Fin 2, Fin 3, Fin 4])"
    by simp_all
  from statistics_nonempty [OF this, of name ts]
  show "\<exists>r. statistics name 4 [Fin 1, Fin 2, Fin 3, Fin 4] ts = Inr r \<and>
          map_of r ''median'' = Some (VFloat (Fin 3))"
    by (auto simp: py_sorted_def)
qed

theorem median_is_upper_median_witness:
  "[Fin 4, Fin 1, Fin 3, Fin 2] \<noteq> [] \<and> NaN \<notin> set [Fin 4, Fin 1, Fin 3, Fin 2] \<and>
   py_sorted [Fin 4, Fin 1, Fin 3, Fin 2] = [Fin 1, Fin 2, Fin 3, Fin 4] \<and>
   (\<exists>r. statistics ''bench'' 4 [Fin 4, Fin 1, Fin 3, Fin 2] ''t'' = Inr r \<and>
        map_of r ''median'' = Some (VFloat (Fin 3)))"
proof -
  have s: "py_sorted [Fin 4, Fin 1, Fin 3, Fin 2] = [Fin 1, Fin 2, Fin 3, Fin 4]"
    by (simp add: py_sorted_def)
  have h: "[Fin 4, Fin 1, Fin 3, Fin 2] \<noteq> []" "NaN \<notin> set [Fin 4, Fin 1, Fin 3, Fin 2]"
    by simp_all
  from median_is_upper_median [OF h, of "''bench''" "''t''"]
  have "case statistics ''bench'' 4 [Fin 4, Fin 1, Fin 3, Fin 2] ''t'' of
        Inr r \<Rightarrow> map_of r ''median'' = Some (VFloat (Fin 3))
      | Inl e \<Rightarrow> e = OverflowError \<and> (2::int) ^ 1023 \<le> 4"
    by (simp add: s split: sum.splits)
  then have "\<exists>r. statistics ''bench'' 4 [Fin 4, Fin 1, Fin 3, Fin 2] ''t'' = Inr r \<and>
        map_of r ''median'' = Some (VFloat (Fin 3))"
    by (cases "statistics ''bench'' 4 [Fin 4, Fin 1, Fin 3, Fin 2] ''t''") simp_all
  with s h show ?thesis by blast
qed


lemma p95_index_4: "p95_index 4 = Inr 3"
proof -
  have "round_double (4 * (8556839292003942 / 2 ^ 53)) = Fin (4 * (8556839292003942 / 2 ^ 53))"
    using round_double_at [of 1 "4 * (8556839292003942 / 2 ^ 53)"]
    by (simp add: pow2_def round_half_even_def Let_def floor_rat_numeral)
  then show ?thesis
    by (simp add: p95_index_def float_of_int_numeral literal_0_95_value py_int_def floor_rat_numeral)
qed


subsection \<open>The record of calls of the executor\<close>

lemma raised_simps: "raised (Inl e) = Some e" "raised (Inr v) = None"
  by (simp_all add: raised_def)

lemma call_fn_world:
  assumes "call_fn i f a w = (r, w1)"
  shows "trace w1 = trace w @ [FnDone i a (raised r)]" "files w1 = files w"
  using assms by (auto simp: call_fn_def split: prod.splits)

lemma call_setup_world:
  assumes "call_setup i f w = (r, w1)"
  shows "trace w1 = trace w @ [SetupDone i r]" "files w1 = files w"
  using assms by (auto simp: call_setup_def split: prod.splits)

lemma call_cleanup_world:
  assumes "call_cleanup i f c w = (r, w1)"
  shows "trace w1 = trace w @ [CleanupDone i c (raised r)]" "files w1 = files w"
  using assms by (auto simp: call_cleanup_def split: prod.splits)

lemma read_clock_world:
  assumes "read_clock env w = (t, w1)"
  shows "trace w1 = trace w" "files w1 = files w" "\<exists>x. t = Fin x"
  using assms by (auto simp: read_clock_def split: prod.splits)

lemma all_returned_simps:
  "all_returned i a []"
  "all_returned i a (xs @ ys) = (all_returned i a xs \<and> all_returned i a ys)"
  "all_returned i a [ev] = (ev = FnDone i a None)"
  "all_returned i a (ev # evs) = (ev = FnDone i a None \<and> all_returned i a evs)"
  by (auto simp: all_returned_def)

lemma warmup_loop_events:
  assumes "warmup_loop k (call_fn i f a) w = (r, w1)"
  shows "\<exists>evs. trace w1 = trace w @ evs \<and> files w1 = files w \<and>
           ((\<exists>v. r = Inr v) \<longrightarrow> all_returned i a evs \<and> length evs = k) \<and>
           (\<forall>e. r = Inl e \<longrightarrow> (\<exists>pre. evs = pre @ [FnDone i a (Some e)] \<and> all_returned i a pre))"
  using assms
proof (induction k arbitrary: w)
  case 0
  then show ?case by (auto simp: all_returned_simps)
next
  case (Suc k)
  obtain r0 w0 where c: "call_fn i f a w = (r0, w0)" by (cases "call_fn i f a w")
  note cw = call_fn_world [OF c]
  show ?case
  proof (cases r0)
    case (Inl e0)
    then have "r = Inl e0" "w1 = w0" using Suc.prems c by simp_all
    then show ?thesis
      using cw Inl
      by (intro exI [of _ "[FnDone i a (Some e0)]"])
         (auto simp: all_returned_simps raised_def intro!: exI [of _ "[]"])
  next
    case (Inr v)
    then have "warmup_loop k (call_fn i f a) w0 = (r, w1)" using Suc.prems c by simp
    from Suc.IH [OF this] obtain evs where evs: "trace w1 = trace w0 @ evs" "files w1 = files w0"
      "(\<exists>v. r = Inr v) \<longrightarrow> all_returned i a evs \<and> length evs = k"
      "\<forall>e. r = Inl e \<longrightarrow> (\<exists>pre. evs = pre @ [FnDone i a (Some e)] \<and> all_returned i a pre)"
      by blast
    have "\<forall>e. r = Inl e \<longrightarrow>
            (\<exists>pre. FnDone i a None # evs = pre @ [FnDone i a (Some e)] \<and> all_returned i a pre)"
    proof (intro allI impI)
      fix e assume "r = Inl e"
      then obtain pre where "evs = pre @ [FnDone i a (Some e)]" "all_returned i a pre"
        using evs(4) by blast
      then show "\<exists>pre. FnDone i a None # evs = pre @ [FnDone i a (Some e)] \<and> all_returned i a pre"
        by (intro exI [of _ "FnDone i a None # pre"]) (simp add: all_returned_simps)
    qed
    then show ?thesis
      using evs(1,2,3) cw Inr
      by (intro exI [of _ "FnDone i a None # evs"]) (auto simp: raised_def all_returned_simps)
  qed
qed

lemma loop_events_append:
  "all_returned i a xs \<Longrightarrow> loop_events i a x ys \<Longrightarrow> loop_events i a x (xs @ ys)"
  unfolding loop_events_def
  by (auto simp: all_returned_simps)

lemma loop_events_all_returned: "all_returned i a xs \<Longrightarrow> loop_events i a x xs"
  by (simp add: loop_events_def)

lemma round_double_not_nan: "round_double x \<noteq> NaN"
  by (simp add: round_double_def Let_def)

lemma duration_not_nan: "fmul (fsub (Fin t) (Fin s)) (Fin 1000) \<noteq> NaN"
proof -
  have "fsub (Fin t) (Fin s) = round_double (t - s)" by (simp add: fsub_def)
  then show ?thesis
    using round_double_not_nan [of "t - s"]
    by (cases "round_double (t - s)") (simp_all add: round_double_not_nan inf_of_sign_def)
qed

lemma timed_loop_events:
  assumes "timed_loop env (call_fn i f a) cb k j acc w = (r, w1)"
  shows "\<exists>evs. trace w1 = trace w @ evs \<and> files w1 = files w \<and>
           loop_events i a (raised r) evs \<and> (0 < k \<longrightarrow> evs \<noteq> []) \<and>
           (\<forall>samples. r = Inr samples \<longrightarrow>
              all_returned i a evs \<and> length evs = k \<and> length samples = length acc + k \<and>
              (NaN \<notin> set acc \<longrightarrow> NaN \<notin> set samples))"
  using assms
proof (induction k arbitrary: j acc w)
  case 0
  then show ?case by (auto simp: loop_events_def all_returned_simps)
next
  case (Suc k)
  obtain s w0 where c0: "read_clock env w = (s, w0)" by (cases "read_clock env w")
  obtain r0 w2 where c: "call_fn i f a w0 = (r0, w2)" by (cases "call_fn i f a w0")
  note k0 = read_clock_world [OF c0]
  note cw = call_fn_world [OF c]
  have tw2: "trace w2 = trace w @ [FnDone i a (raised r0)]" "files w2 = files w"
    using k0 cw by simp_all
  show ?case
  proof (cases r0)
    case (Inl e0)
    then have "r = Inl e0" "w1 = w2" using Suc.prems c0 c by simp_all
    then show ?thesis
      using tw2 Inl
      by (auto simp: loop_events_def all_returned_simps raised_def intro!: exI [of _ "[]"])
  next
    case (Inr v)
    obtain t w3 where c3: "read_clock env w2 = (t, w3)" by (cases "read_clock env w2")
    note k3 = read_clock_world [OF c3]
    obtain x y where st: "s = Fin x" "t = Fin y" using k0(3) k3(3) by blast
    define d where "d = fmul (fsub t s) (Fin 1000)"
    have dn: "d \<noteq> NaN" unfolding d_def st by (rule duration_not_nan)
    have tw3: "trace w3 = trace w @ [FnDone i a None]" "files w3 = files w"
      using tw2 k3 Inr by (simp_all add: raised_def)
    have step: "\<exists>evs. trace w1 = trace w @ evs \<and> files w1 = files w \<and>
           loop_events i a (raised r) evs \<and> (0 < Suc k \<longrightarrow> evs \<noteq> []) \<and>
           (\<forall>samples. r = Inr samples \<longrightarrow>
              all_returned i a evs \<and> length evs = Suc k \<and> length samples = length acc + Suc k \<and>
              (NaN \<notin> set acc \<longrightarrow> NaN \<notin> set samples))"
      if rec: "timed_loop env (call_fn i f a) cb k (j + 1) (acc @ [d]) w4 = (r, w1)"
        and w4: "trace w4 = trace w3" "files w4 = files w3" for w4
    proof -
      from Suc.IH [OF rec] obtain evs where evs: "trace w1 = trace w4 @ evs" "files w1 = files w4"
        "loop_events i a (raised r) evs"
        "\<forall>samples. r = Inr samples \<longrightarrow>
              all_returned i a evs \<and> length evs = k \<and> length samples = length (acc @ [d]) + k \<and>
              (NaN \<notin> set (acc @ [d]) \<longrightarrow> NaN \<notin> set samples)"
        by blast
      have "loop_events i a (raised r) ([FnDone i a None] @ evs)"
        using evs(3) by (intro loop_events_append) (simp add: all_returned_simps)
      then show ?thesis
        using evs w4 tw3 dn
        by (intro exI [of _ "[FnDone i a None] @ evs"]) (auto simp: all_returned_simps)
    qed
    show ?thesis
    proof (cases cb)
      case None
      then have "timed_loop env (call_fn i f a) cb k (j + 1) (acc @ [d]) w3 = (r, w1)"
        using Suc.prems c0 c c3 Inr by (simp add: d_def)
      then show ?thesis by (rule step) simp_all
    next
      case (Some g)
      obtain rg u where g: "g j d v (user w3) = (rg, u)" by (cases "g j d v (user w3)")
      show ?thesis
      proof (cases rg)
        case (Inl e1)
        then have "r = Inl e1" "w1 = w3\<lparr>user := u\<rparr>"
          using Suc.prems c0 c c3 Inr Some g by (simp_all add: d_def)
        then show ?thesis
          using tw3
          by (intro exI [of _ "[FnDone i a None]"])
             (auto simp: loop_events_def all_returned_simps)
      next
        case (Inr v1)
        then have "timed_loop env (call_fn i f a) cb k (j + 1) (acc @ [d]) (w3\<lparr>user := u\<rparr>) = (r, w1)"
          using Suc.prems c0 c c3 \<open>r0 = Inr v\<close> Some g by (simp add: d_def)
        then show ?thesis by (rule step) simp_all
      qed
    qed
  qed
qed

lemma statistics_keys:
  assumes "statistics nm n samples ts = Inr d"
  shows "keys d = success_keys" "map_of d ''name'' = Some (VStr nm)"
  using assms
  by (auto simp: statistics_def Let_def keys_def success_keys_def split: sum.splits)

lemma warm_up_events:
  assumes "warm_up i f a n opts w = (r, w1)"
  shows "\<exists>evs. trace w1 = trace w @ evs \<and> files w1 = files w \<and>
           ((\<exists>v. r = Inr v) \<longrightarrow> all_returned i a evs) \<and>
           (\<forall>e. r = Inl e \<longrightarrow> (\<exists>pre. evs = pre @ [FnDone i a (Some e)] \<and> all_returned i a pre))"
proof (cases "bo_warmup opts")
  case True
  then have "warmup_loop (nat (min 10 (n div 10))) (call_fn i f a) w = (r, w1)"
    using assms by (simp add: warm_up_def)
  from warmup_loop_events [OF this] show ?thesis by blast
next
  case False
  then have "r = Inr ()" "w1 = w" using assms by (simp_all add: warm_up_def)
  then show ?thesis by (intro exI [of _ "[]"]) (simp add: all_returned_simps)
qed

lemma finish_benchmark_world:
  assumes "finish_benchmark env nm n opts samples w = (r, w1)"
  shows "trace w1 = trace w" "user w1 = user w"
    "\<forall>d. r = Inr d \<longrightarrow> files w1 = files w \<and> keys d = success_keys \<and>
        map_of d ''name'' = Some (VStr (case bo_name opts of Some x \<Rightarrow> x | None \<Rightarrow> nm)) \<and>
        (bo_save_file opts = None \<or> bo_save_file opts = Some [])"
proof -
  define name where "name = (case bo_name opts of Some x \<Rightarrow> x | None \<Rightarrow> nm)"
  show "trace w1 = trace w" "user w1 = user w"
    using assms
    by (auto simp: finish_benchmark_def save_result_def split: sum.splits option.splits if_splits)
  show "\<forall>d. r = Inr d \<longrightarrow> files w1 = files w \<and> keys d = success_keys \<and>
        map_of d ''name'' = Some (VStr (case bo_name opts of Some x \<Rightarrow> x | None \<Rightarrow> nm)) \<and>
        (bo_save_file opts = None \<or> bo_save_file opts = Some [])"
  proof (intro allI impI)
    fix d assume r: "r = Inr d"
    then have st: "statistics name n samples (now_iso env (user w)) = Inr d"
      and rest: "files w1 = files w" "bo_save_file opts = None \<or> bo_save_file opts = Some []"
      using assms unfolding finish_benchmark_def name_def [symmetric]
      by (auto simp: save_result_def split: sum.splits option.splits if_splits)
    from statistics_keys [OF st] rest
    show "files w1 = files w \<and> keys d = success_keys \<and>
        map_of d ''name'' = Some (VStr (case bo_name opts of Some x \<Rightarrow> x | None \<Rightarrow> nm)) \<and>
        (bo_save_file opts = None \<or> bo_save_file opts = Some [])"
      by (simp add: name_def)
  qed
qed

lemma run_benchmark_events:
  assumes "run_benchmark env i f nm a n opts w = (r, w1)"
  shows "\<exists>evs. trace w1 = trace w @ evs \<and> loop_events i a (raised r) evs \<and>
           (1 \<le> n \<longrightarrow> evs \<noteq> []) \<and>
           (\<forall>d. r = Inr d \<longrightarrow>
              all_returned i a evs \<and> files w1 = files w \<and> keys d = success_keys \<and>
              map_of d ''name'' = Some (VStr (case bo_name opts of Some x \<Rightarrow> x | None \<Rightarrow> nm)) \<and>
              (bo_save_file opts = None \<or> bo_save_file opts = Some []))"
proof -
  obtain r0 w0 where wu: "warm_up i f a n opts w = (r0, w0)"
    by (cases "warm_up i f a n opts w")
  from warm_up_events [OF wu] obtain evs0 where e0: "trace w0 = trace w @ evs0 \<and>
    files w0 = files w \<and>
    ((\<exists>v. r0 = Inr v) \<longrightarrow> all_returned i a evs0) \<and>
    (\<forall>e. r0 = Inl e \<longrightarrow> (\<exists>pre. evs0 = pre @ [FnDone i a (Some e)] \<and> all_returned i a pre))" ..
  show ?thesis
  proof (cases r0)
    case (Inl e)
    have rw: "r = Inl e" "w1 = w0"
      using assms unfolding run_benchmark_def wu Inl by simp_all
    obtain pre where pre: "evs0 = pre @ [FnDone i a (Some e)]" "all_returned i a pre"
      using e0 Inl by blast
    have "loop_events i a (raised r) evs0"
      unfolding loop_events_def using pre rw by (auto simp: raised_def)
    then show ?thesis
      using e0 rw pre(1) by (intro exI [of _ evs0]) (simp add: raised_simps)
  next
    case (Inr v)
    then have a0: "all_returned i a evs0" using e0 by blast
    obtain r2 w2 where tl: "timed_loop env (call_fn i f a) (bo_on_iteration opts) (nat n) 0 [] w0 = (r2, w2)"
      by (cases "timed_loop env (call_fn i f a) (bo_on_iteration opts) (nat n) 0 [] w0")
    have "\<exists>evs2. trace w2 = trace w0 @ evs2 \<and> files w2 = files w0 \<and>
           loop_events i a (raised r2) evs2 \<and> (0 < nat n \<longrightarrow> evs2 \<noteq> []) \<and>
           (\<forall>samples. r2 = Inr samples \<longrightarrow> all_returned i a evs2)"
      using timed_loop_events [OF tl] by (elim exE conjE) (intro exI conjI, auto)
    then obtain evs2 where e2: "trace w2 = trace w0 @ evs2 \<and> files w2 = files w0 \<and>
           loop_events i a (raised r2) evs2 \<and> (0 < nat n \<longrightarrow> evs2 \<noteq> []) \<and>
           (\<forall>samples. r2 = Inr samples \<longrightarrow> all_returned i a evs2)" ..
    have tr: "trace w2 = trace w @ (evs0 @ evs2)" using e0 e2 by simp
    have fl: "files w2 = files w" using e0 e2 by simp
    have ne: "1 \<le> n \<longrightarrow> evs0 @ evs2 \<noteq> []" using e2 by auto
    show ?thesis
    proof (cases r2)
      case (Inl e)
      have rw: "r = Inl e" "w1 = w2"
        using assms unfolding run_benchmark_def wu \<open>r0 = Inr v\<close> by (simp_all add: tl Inl)
      have "loop_events i a (raised r2) (evs0 @ evs2)"
        using a0 e2 by (intro loop_events_append) simp_all
      then show ?thesis
        using tr ne rw Inl by (intro exI [of _ "evs0 @ evs2"]) (simp add: raised_simps)
    next
      case r2: (Inr samples)
      have a2: "all_returned i a (evs0 @ evs2)"
        using a0 e2 r2 by (simp add: all_returned_simps)
      have fb: "finish_benchmark env nm n opts samples w2 = (r, w1)"
        using assms unfolding run_benchmark_def wu \<open>r0 = Inr v\<close> by (simp add: tl r2)
      note fw = finish_benchmark_world [OF fb]
      have "loop_events i a (raised r) (evs0 @ evs2)"
        using a2 by (rule loop_events_all_returned)
      then show ?thesis
        using tr ne a2 fw fl by (intro exI [of _ "evs0 @ evs2"]) (simp add: raised_simps)
    qed
  qed
qed

subsection \<open>The record of calls of one benchmark, and of a suite\<close>

lemma run_setup_world:
  assumes "run_setup i b w = (r, w1)"
  shows "files w1 = files w"
    "b_setup b = None \<longrightarrow> r = Inr None \<and> w1 = w"
    "b_setup b \<noteq> None \<longrightarrow> trace w1 = trace w @ [SetupDone i r]"
  using assms call_setup_world [of i _ w r w1]
  by (auto simp: run_setup_def split: option.splits)

lemma run_cleanup_world:
  assumes "run_cleanup i b ctx w = (r, w1)"
  shows "files w1 = files w"
    "b_cleanup b = None \<or> ctx = None \<longrightarrow> r = Inr () \<and> w1 = w"
    "\<forall>c. b_cleanup b \<noteq> None \<and> ctx = Some c \<longrightarrow> trace w1 = trace w @ [CleanupDone i c (raised r)]"
  using assms call_cleanup_world [of i _ _ w r w1]
  by (auto simp: run_cleanup_def split: option.splits)

lemma bo_name_make_bench_options:
  "(case bo_name (make_bench_options sn opts b) of Some x \<Rightarrow> x | None \<Rightarrow> nm) = b_name b"
  by (simp add: make_bench_options_def)

lemma run_one_outcome:
  assumes "run_one env i sn opts b w = (r, w1)"
  shows "\<exists>evs. trace w1 = trace w @ evs \<and> bench_outcome env i b r evs"
proof -
  obtain r0 w0 where su: "run_setup i b w = (r0, w0)" by (cases "run_setup i b w")
  note sw = run_setup_world [OF su]
  show ?thesis
  proof (cases r0)
    case (Inl e)
    then have rw: "r = failure_entry env (b_name b) e" "w1 = w0"
      using assms unfolding run_one_def su by simp_all
    have ns: "b_setup b \<noteq> None" using sw(2) Inl by auto
    then have "trace w0 = trace w @ [SetupDone i (Inl e)]" using sw(3) Inl by simp
    moreover have "bench_outcome env i b (failure_entry env (b_name b) e) [SetupDone i (Inl e)]"
      using ns by (rule bench_outcome.setup_raised)
    ultimately show ?thesis using rw by blast
  next
    case (Inr ctx)
    have c0: "b_setup b = None \<longrightarrow> ctx = None" using sw(2) Inr by auto
    have t0: "trace w0 = trace w @ setup_events b i ctx"
      using sw(2,3) Inr by (cases "b_setup b") (simp_all add: setup_events_def)
    define n where "n = (case b_iterations b of Some n \<Rightarrow> n | None \<Rightarrow> 100)"
    have n: "n = iterations_of b" by (simp add: n_def iterations_of_def)
    obtain r2 w2 where rb: "run_benchmark env i (b_fn b) (b_fn_name b) ctx n
        (make_bench_options sn opts b) w0 = (r2, w2)"
      by (cases "run_benchmark env i (b_fn b) (b_fn_name b) ctx n (make_bench_options sn opts b) w0")
    from run_benchmark_events [OF rb] obtain evs where ev: "trace w2 = trace w0 @ evs \<and>
        loop_events i ctx (raised r2) evs \<and> (1 \<le> n \<longrightarrow> evs \<noteq> []) \<and>
        (\<forall>d. r2 = Inr d \<longrightarrow>
           all_returned i ctx evs \<and> files w2 = files w0 \<and> keys d = success_keys \<and>
           map_of d ''name'' = Some (VStr (case bo_name (make_bench_options sn opts b) of
              Some x \<Rightarrow> x | None \<Rightarrow> b_fn_name b)) \<and>
           (bo_save_file (make_bench_options sn opts b) = None \<or>
            bo_save_file (make_bench_options sn opts b) = Some []))" ..
    have t2: "trace w2 = trace w @ (setup_events b i ctx @ evs)" using t0 ev by simp
    have ne: "1 \<le> iterations_of b \<longrightarrow> evs \<noteq> []" using ev n by simp
    show ?thesis
    proof (cases r2)
      case (Inl e)
      have rw: "r = failure_entry env (b_name b) e" "w1 = w2"
        using assms unfolding run_one_def su \<open>r0 = Inr ctx\<close> n_def [symmetric]
        by (simp_all add: rb Inl)
      have le: "loop_events i ctx (Some e) evs" using ev Inl by (simp add: raised_simps)
      have "bench_outcome env i b (failure_entry env (b_name b) e) (setup_events b i ctx @ evs)"
      proof (cases "all_returned i ctx evs")
        case True
        with c0 show ?thesis using ne by (rule bench_outcome.executor_failed)
      next
        case False
        then obtain pre where pre: "evs = pre @ [FnDone i ctx (Some e)]" "all_returned i ctx pre"
          using le unfolding loop_events_def by auto
        show ?thesis unfolding pre(1) using c0 pre(2) by (rule bench_outcome.fn_raised)
      qed
      then show ?thesis using rw t2 by blast
    next
      case r2: (Inr d)
      then have ar: "all_returned i ctx evs" and kd: "keys d = success_keys"
        and nd: "map_of d ''name'' = Some (VStr (b_name b))"
        using ev by (simp_all add: bo_name_make_bench_options)
      have se: "is_success_entry (b_name b) (VDict d)"
        using kd nd by (simp add: is_success_entry_def)
      obtain r3 w3 where cl: "run_cleanup i b ctx w2 = (r3, w3)"
        by (cases "run_cleanup i b ctx w2")
      note cw = run_cleanup_world [OF cl]
      have r1: "(r, w1) = (case r3 of Inl e \<Rightarrow> (failure_entry env (b_name b) e, w3)
                                   | Inr v \<Rightarrow> (VDict d, w3))"
        using assms unfolding run_one_def su \<open>r0 = Inr ctx\<close> n_def [symmetric]
        by (simp add: rb r2 cl split: sum.splits)
      show ?thesis
      proof (cases "b_cleanup b = None \<or> ctx = None")
        case True
        then have "r3 = Inr ()" "w3 = w2" using cw(2) by simp_all
        then have rw: "r = VDict d" "w1 = w2" using r1 by simp_all
        have "bench_outcome env i b (VDict d) (setup_events b i ctx @ evs)"
          using c0 ar ne True se by (rule bench_outcome.no_cleanup)
        then show ?thesis using rw t2 by blast
      next
        case False
        then obtain c where c: "ctx = Some c" and bc: "b_cleanup b \<noteq> None" by auto
        have bs: "b_setup b \<noteq> None" using c0 c by auto
        have t3: "trace w3 = trace w @ (setup_events b i (Some c) @ evs @ [CleanupDone i c (raised r3)])"
          using cw(3) bc c t2 by simp
        show ?thesis
        proof (cases r3)
          case (Inl e)
          then have rw: "r = failure_entry env (b_name b) e" "w1 = w3" using r1 by simp_all
          have "bench_outcome env i b (failure_entry env (b_name b) e)
                  (setup_events b i (Some c) @ evs @ [CleanupDone i c (Some e)])"
            using bs bc ar ne unfolding c by (rule bench_outcome.cleanup_raised)
          then show ?thesis using rw t3 Inl by (auto simp: raised_simps)
        next
          case (Inr v)
          then have rw: "r = VDict d" "w1 = w3" using r1 by simp_all
          have "bench_outcome env i b (VDict d)
                  (setup_events b i (Some c) @ evs @ [CleanupDone i c None])"
            using bs bc ar ne se unfolding c by (rule bench_outcome.cleanup_returned)
          then show ?thesis using rw t3 Inr by (auto simp: raised_simps)
        qed
      qed
    qed
  qed
qed

lemma bench_outcome_tags:
  assumes "bench_outcome env i b r evs"
  shows "\<forall>ev\<in>set evs. ev_tag ev = i"
  using assms
  by (cases rule: bench_outcome.cases)
     (auto simp: setup_events_def all_returned_def split: option.splits)

lemma events_of_append: "events_of i (xs @ ys) = events_of i xs @ events_of i ys"
  by (simp add: events_of_def)

lemma events_of_same: "\<forall>ev\<in>set evs. ev_tag ev = i \<Longrightarrow> events_of i evs = evs"
  by (simp add: events_of_def)

lemma events_of_other: "\<forall>ev\<in>set evs. ev_tag ev \<noteq> i \<Longrightarrow> events_of i evs = []"
  by (simp add: events_of_def)

lemma run_benchmarks_outcome:
  assumes "run_benchmarks env sn opts k bs w = (rs, w1)"
  shows "length rs = length bs \<and>
         (\<exists>evs. trace w1 = trace w @ evs \<and>
            (\<forall>ev\<in>set evs. k \<le> ev_tag ev) \<and>
            (\<forall>j<length bs. bench_outcome env (k + j) (bs ! j) (rs ! j) (events_of (k + j) evs)))"
  using assms
proof (induction bs arbitrary: k w rs w1)
  case Nil
  then show ?case by simp
next
  case (Cons b bs)
  obtain r w0 where ro: "run_one env k sn opts b w = (r, w0)"
    by (cases "run_one env k sn opts b w")
  obtain rs0 w2 where rr: "run_benchmarks env sn opts (Suc k) bs w0 = (rs0, w2)"
    by (cases "run_benchmarks env sn opts (Suc k) bs w0")
  have res: "rs = r # rs0" "w1 = w2" using Cons.prems ro rr by simp_all
  from run_one_outcome [OF ro] obtain evs0 where e0: "trace w0 = trace w @ evs0"
    "bench_outcome env k b r evs0" by blast
  note tg = bench_outcome_tags [OF e0(2)]
  from Cons.IH [OF rr] obtain evs where ev: "length rs0 = length bs" "trace w2 = trace w0 @ evs"
    "\<forall>ev\<in>set evs. Suc k \<le> ev_tag ev"
    "\<forall>j<length bs. bench_outcome env (Suc k + j) (bs ! j) (rs0 ! j) (events_of (Suc k + j) evs)"
    by blast
  have "events_of k evs = []" using ev(3) by (intro events_of_other) auto
  then have k0: "events_of k (evs0 @ evs) = evs0"
    using tg by (simp add: events_of_append events_of_same)
  have kj: "events_of (Suc k + j) (evs0 @ evs) = events_of (Suc k + j) evs" for j
  proof -
    have "events_of (Suc k + j) evs0 = []" using tg by (intro events_of_other) auto
    then show ?thesis by (simp add: events_of_append)
  qed
  have "\<forall>j<length (b # bs). bench_outcome env (k + j) ((b # bs) ! j) (rs ! j) (events_of (k + j) (evs0 @ evs))"
  proof (intro allI impI)
    fix j assume j: "j < length (b # bs)"
    show "bench_outcome env (k + j) ((b # bs) ! j) (rs ! j) (events_of (k + j) (evs0 @ evs))"
    proof (cases j)
      case 0
      then show ?thesis using e0(2) k0 res by simp
    next
      case (Suc j')
      then have "j' < length bs" using j by simp
      then have "bench_outcome env (Suc k + j') (bs ! j') (rs0 ! j') (events_of (Suc k + j') evs)"
        using ev(4) by simp
      then show ?thesis using Suc kj [of j'] res by simp
    qed
  qed
  moreover have "\<forall>ev\<in>set (evs0 @ evs). k \<le> ev_tag ev"
    using tg ev(3) by auto
  moreover have "trace w1 = trace w @ (evs0 @ evs)" using e0(1) ev(2) res by simp
  ultimately show ?case using ev(1) res by (intro conjI exI [of _ "evs0 @ evs"]) simp_all
qed

lemma run_suite_outcome:
  assumes "run_suite env suite opts w = (res, w1)"
  shows "\<exists>rs. map_of res ''benchmarks'' = Some (VList rs) \<and>
           length rs = length (s_benchmarks suite) \<and>
           trace w1 = trace w @ new_events w w1 \<and>
           (\<forall>j<length (s_benchmarks suite).
              bench_outcome env j (s_benchmarks suite ! j) (rs ! j) (events_of j (new_events w w1)))"
proof -
  obtain rs w0 where rb: "run_benchmarks env (s_name suite) opts 0 (s_benchmarks suite) w = (rs, w0)"
    by (cases "run_benchmarks env (s_name suite) opts 0 (s_benchmarks suite) w")
  have r: "map_of res ''benchmarks'' = Some (VList rs)" and t: "trace w1 = trace w0"
    using assms unfolding run_suite_def Let_def rb
    by (auto split: option.splits if_splits)
  from run_benchmarks_outcome [OF rb] obtain evs where ev: "length rs = length (s_benchmarks suite)"
    "trace w0 = trace w @ evs"
    "\<forall>j<length (s_benchmarks suite).
        bench_outcome env (0 + j) (s_benchmarks suite ! j) (rs ! j) (events_of (0 + j) evs)"
    by blast
  have "new_events w w1 = evs" using ev(2) t by (simp add: new_events_def)
  then show ?thesis using r ev t by auto
qed

lemma p95_index_5: "p95_index 5 = Inr 4"
proof -
  have "round_double (5 * (8556839292003942 / 2 ^ 53)) = Fin (19 / 4)"
    using round_double_at [of 2 "5 * (8556839292003942 / 2 ^ 53)"]
    by (simp add: pow2_def round_half_even_def Let_def floor_rat_numeral)
  then show ?thesis
    by (simp add: p95_index_def float_of_int_numeral literal_0_95_value py_int_def floor_rat_numeral)
qed

lemma p95_index_1: "p95_index 1 = Inr 0"
proof -
  have "round_double (8556839292003942 / 2 ^ 53) = Fin (8556839292003942 / 2 ^ 53)"
    using round_double_at [of "- 1" "8556839292003942 / 2 ^ 53"]
    by (simp add: pow2_def round_half_even_def Let_def floor_rat_numeral)
  moreover have "float_of_int 1 = Inr 1"
    by (simp add: float_of_int_def round_double_one)
  ultimately show ?thesis
    by (simp add: p95_index_def literal_0_95_value py_int_def floor_rat_numeral)
qed

lemmas ex_defs = run_suite_def run_one_def run_setup_def bench_a_def bench_b_def bench_c_def
  bench_d_def ex_suite_def ex_world_def ex_env_def call_setup_def call_cleanup_def
  default_suite_options_def make_bench_options_def run_benchmark_def warm_up_def
  eval_nat_numeral read_clock_def call_fn_def raised_def fsub_def
  round_double_numeral round_double_one finish_benchmark_def statistics_def
  py_sorted_def py_sum_def py_truediv_def float_of_int_numeral float_of_int_def py_index_def
  p95_index_5 p95_index_1 run_cleanup_def Let_def

lemma ex_run:
  "run_suite ex_env ex_suite default_suite_options ex_world =
     ([(''name'', VStr ''demo''), (''description'', VStr []),
       (''benchmarks'',
        VList
         [VDict
           [(''name'', VStr ''Bench A''), (''iterations'', VInt 5),
            (''total'', VFloat (Fin 5000)), (''mean'', VFloat (Fin 1000)),
            (''median'', VFloat (Fin 1000)), (''min'', VFloat (Fin 1000)),
            (''max'', VFloat (Fin 1000)), (''p95'', VFloat (Fin 1000)),
            (''timestamp'', VStr ''2024-01-01T00:00:00'')],
          failure_entry ex_env ''Bench B'' boom,
          VDict
           [(''name'', VStr ''Bench C''), (''iterations'', VInt 1),
            (''total'', VFloat (Fin 1000)), (''mean'', VFloat (Fin 1000)),
            (''median'', VFloat (Fin 1000)), (''min'', VFloat (Fin 1000)),
            (''max'', VFloat (Fin 1000)), (''p95'', VFloat (Fin 1000)),
            (''timestamp'', VStr ''2024-01-01T00:00:00'')],
          VDict
           [(''name'', VStr ''Bench D''), (''iterations'', VInt 1),
            (''total'', VFloat (Fin 1000)), (''mean'', VFloat (Fin 1000)),
            (''median'', VFloat (Fin 1000)), (''min'', VFloat (Fin 1000)),
            (''max'', VFloat (Fin 1000)), (''p95'', VFloat (Fin 1000)),
            (''timestamp'', VStr ''2024-01-01T00:00:00'')]]),
       (''timestamp'', VStr ''2024-01-01T00:00:00''),
       (''implementation'', VStr ''python'')],
      \<lparr>user = 14, files = Map.empty,
         trace =
           [FnDone 0 None None, FnDone 0 None None, FnDone 0 None None,
            FnDone 0 None None, FnDone 0 None None,
            SetupDone 1 (Inr (Some 7)), FnDone 1 (Some 7) (Some boom),
            SetupDone 2 (Inr None), FnDone 2 None None,
            SetupDone 3 (Inr (Some 7)), FnDone 3 (Some 7) None, CleanupDone 3 7 None]\<rparr>)"
  by (simp add: ex_defs)

lemma ex_events:
  "new_events ex_world (snd (run_suite ex_env ex_suite default_suite_options ex_world)) =
     [FnDone 0 None None, FnDone 0 None None, FnDone 0 None None,
      FnDone 0 None None, FnDone 0 None None,
      SetupDone 1 (Inr (Some 7)), FnDone 1 (Some 7) (Some boom),
      SetupDone 2 (Inr None), FnDone 2 None None,
      SetupDone 3 (Inr (Some 7)), FnDone 3 (Some 7) None, CleanupDone 3 7 None]"
proof -
  have "trace ex_world = []" by (simp add: ex_world_def)
  then show ?thesis by (simp add: ex_run new_events_def)
qed

lemma ex_entries:
  "benchmarks_of (fst (run_suite ex_env ex_suite default_suite_options ex_world)) =
     [VDict
           [(''name'', VStr ''Bench A''), (''iterations'', VInt 5),
            (''total'', VFloat (Fin 5000)), (''mean'', VFloat (Fin 1000)),
            (''median'', VFloat (Fin 1000)), (''min'', VFloat (Fin 1000)),
            (''max'', VFloat (Fin 1000)), (''p95'', VFloat (Fin 1000)),
            (''timestamp'', VStr ''2024-01-01T00:00:00'')],
          failure_entry ex_env ''Bench B'' boom,
          VDict
           [(''name'', VStr ''Bench C''), (''iterations'', VInt 1),
            (''total'', VFloat (Fin 1000)), (''mean'', VFloat (Fin 1000)),
            (''median'', VFloat (Fin 1000)), (''min'', VFloat (Fin 1000)),
            (''max'', VFloat (Fin 1000)), (''p95'', VFloat (Fin 1000)),
            (''timestamp'', VStr ''2024-01-01T00:00:00'')],
          VDict
           [(''name'', VStr ''Bench D''), (''iterations'', VInt 1),
            (''total'', VFloat (Fin 1000)), (''mean'', VFloat (Fin 1000)),
            (''median'', VFloat (Fin 1000)), (''min'', VFloat (Fin 1000)),
            (''max'', VFloat (Fin 1000)), (''p95'', VFloat (Fin 1000)),
            (''timestamp'', VStr ''2024-01-01T00:00:00'')]]"
  by (simp add: ex_run benchmarks_of_def)

subsection \<open>What one outcome says\<close>

lemma is_failure_entry_failure: "is_failure_entry nm (failure_entry env nm e)"
  by (simp add: is_failure_entry_def failure_entry_def keys_def failure_keys_def)

lemma failure_entry_not_success: "\<not> is_success_entry nm (failure_entry env nm1 e)"
  by (simp add: is_success_entry_def failure_entry_def keys_def success_keys_def)

lemma filter_cleanup_all_returned: "all_returned i a fs \<Longrightarrow> filter is_cleanup fs = []"
  by (induction fs) (auto simp: all_returned_def)

lemma filter_cleanup_setup_events: "filter is_cleanup (setup_events b i ctx) = []"
  by (simp add: setup_events_def split: option.splits)

lemma outcome_entry:
  "bench_outcome env i b r evs \<Longrightarrow> is_success_entry (b_name b) r \<or> is_failure_entry (b_name b) r"
  by (cases rule: bench_outcome.cases) (auto simp: is_failure_entry_failure)

lemma outcome_started:
  "bench_outcome env i b r evs \<Longrightarrow> b_setup b \<noteq> None \<or> 1 \<le> iterations_of b \<Longrightarrow> evs \<noteq> []"
  by (cases rule: bench_outcome.cases) (auto simp: setup_events_def split: option.splits)

lemma outcome_fn_raised:
  assumes "bench_outcome env i b r evs" "FnDone j a (Some e) \<in> set evs"
  shows "r = failure_entry env (b_name b) e"
  using assms
  by (cases rule: bench_outcome.cases)
     (auto simp: setup_events_def all_returned_def split: option.splits)

lemma outcome_none_context:
  assumes "bench_outcome env i b r evs" "b_setup b = None \<or> SetupDone i (Inr None) \<in> set evs"
  shows "(\<forall>ev\<in>set evs. is_fn ev \<longrightarrow> (\<exists>x. ev = FnDone i None x)) \<and> filter is_cleanup evs = []"
  using assms
  by (cases rule: bench_outcome.cases)
     (auto simp: setup_events_def all_returned_def filter_cleanup_all_returned
           split: option.splits)

lemma outcome_cleanup:
  assumes "bench_outcome env i b r evs"
  shows "(filter is_cleanup evs = [] \<or>
          (\<exists>c x. filter is_cleanup evs = [CleanupDone i c x] \<and>
                 SetupDone i (Inr (Some c)) \<in> set evs \<and> b_cleanup b \<noteq> None))"
    and "(\<exists>e. SetupDone i (Inl e) \<in> set evs) \<longrightarrow> filter is_cleanup evs = []"
    and "\<forall>c. is_success_entry (b_name b) r \<and> b_cleanup b \<noteq> None \<and>
             SetupDone i (Inr (Some c)) \<in> set evs \<longrightarrow>
             filter is_cleanup evs = [CleanupDone i c None]"
  using assms
  by (cases rule: bench_outcome.cases;
      auto simp: setup_events_def all_returned_def filter_cleanup_all_returned
           failure_entry_not_success split: option.splits)+

lemma all_returned_mem: "all_returned i a fs \<Longrightarrow> fs \<noteq> [] \<Longrightarrow> FnDone i a None \<in> set fs"
  by (cases fs) (auto simp: all_returned_def)

lemma outcome_setup_called:
  assumes "bench_outcome env i b r evs" "b_setup b \<noteq> None"
  shows "\<exists>x. SetupDone i x \<in> set evs"
  using assms
  by (cases rule: bench_outcome.cases) (auto simp: setup_events_def split: option.splits)

lemma outcome_fn_called:
  assumes "bench_outcome env i b r evs" "1 \<le> iterations_of b"
    "\<forall>e. SetupDone i (Inl e) \<notin> set evs"
  shows "\<exists>a x. FnDone i a x \<in> set evs"
  using assms
proof (cases rule: bench_outcome.cases)
  case (setup_raised e)
  then show ?thesis using assms(3) by simp
next
  case (fn_raised ctx pre e)
  then show ?thesis by auto
next
  case (executor_failed ctx fs e)
  then show ?thesis using assms(2) all_returned_mem [of i ctx fs] by auto
next
  case (no_cleanup ctx fs)
  then show ?thesis using assms(2) all_returned_mem [of i ctx fs] by auto
next
  case (cleanup_returned c fs)
  then show ?thesis using assms(2) all_returned_mem [of i "Some c" fs] by auto
next
  case (cleanup_raised c fs e)
  then show ?thesis using assms(2) all_returned_mem [of i "Some c" fs] by auto
qed

lemma outcome_raised_last:
  assumes "bench_outcome env i b r evs" "FnDone j a (Some e) \<in> set evs"
  shows "last evs = FnDone j a (Some e)"
  using assms
  by (cases rule: bench_outcome.cases)
     (auto simp: setup_events_def all_returned_def split: option.splits)

lemma outcome_none_called:
  assumes "bench_outcome env i b r evs" "b_setup b = None \<or> SetupDone i (Inr None) \<in> set evs"
    "1 \<le> iterations_of b"
  shows "\<exists>x. FnDone i None x \<in> set evs"
  using assms
proof (cases rule: bench_outcome.cases)
  case (setup_raised e)
  then show ?thesis using assms(2) by simp
next
  case (fn_raised ctx pre e)
  then have "ctx = None" using assms(2)
    by (auto simp: setup_events_def all_returned_def split: option.splits)
  then show ?thesis using fn_raised by auto
next
  case (executor_failed ctx fs e)
  then have "ctx = None" using assms(2)
    by (auto simp: setup_events_def all_returned_def split: option.splits)
  then show ?thesis using executor_failed assms(3) all_returned_mem [of i ctx fs] by auto
next
  case (no_cleanup ctx fs)
  then have "ctx = None" using assms(2)
    by (auto simp: setup_events_def all_returned_def split: option.splits)
  then show ?thesis using no_cleanup assms(3) all_returned_mem [of i ctx fs] by auto
next
  case (cleanup_returned c fs)
  then show ?thesis using assms(2)
    by (auto simp: setup_events_def all_returned_def split: option.splits)
next
  case (cleanup_raised c fs e)
  then show ?thesis using assms(2)
    by (auto simp: setup_events_def all_returned_def split: option.splits)
qed

subsection \<open>Claims about the suite run\<close>

lemma benchmarks_of_run_suite:
  assumes "run_suite env suite opts w = (res, w1)"
  shows "length (benchmarks_of res) = length (s_benchmarks suite)"
    and "\<forall>j<length (s_benchmarks suite).
           bench_outcome env j (s_benchmarks suite ! j) (benchmarks_of res ! j)
             (events_of j (new_events w w1))"
  using run_suite_outcome [OF assms] by (auto simp: benchmarks_of_def)

lemma in_events_of: "ev \<in> set evs \<Longrightarrow> ev_tag ev = j \<Longrightarrow> ev \<in> set (events_of j evs)"
  by (simp add: events_of_def)

lemma run_suite_entries:
  assumes "run_suite env suite opts w = (res, w1)"
  shows "length (benchmarks_of res) = length (s_benchmarks suite)"
    and "\<forall>j<length (s_benchmarks suite).
        (is_success_entry (b_name (s_benchmarks suite ! j)) (benchmarks_of res ! j) \<or>
         is_failure_entry (b_name (s_benchmarks suite ! j)) (benchmarks_of res ! j)) \<and>
        (b_setup (s_benchmarks suite ! j) \<noteq> None \<or> 1 \<le> iterations_of (s_benchmarks suite ! j) \<longrightarrow>
           events_of j (new_events w w1) \<noteq> [])"
  using benchmarks_of_run_suite [OF assms] outcome_entry outcome_started
  by blast+

lemma ex_suite_nth:
  "length (s_benchmarks ex_suite) = 4"
  "s_benchmarks ex_suite ! 0 = bench_a" "s_benchmarks ex_suite ! 1 = bench_b"
  "s_benchmarks ex_suite ! Suc 0 = bench_b"
  "s_benchmarks ex_suite ! 2 = bench_c" "s_benchmarks ex_suite ! 3 = bench_d"
  by (simp_all add: ex_suite_def)

lemma ex_bench_fields:
  "b_name bench_a = ''Bench A''" "b_name bench_b = ''Bench B''"
  "b_name bench_c = ''Bench C''" "b_name bench_d = ''Bench D''"
  "b_cleanup bench_b \<noteq> None" "b_cleanup bench_c \<noteq> None" "b_cleanup bench_d \<noteq> None"
  by (simp_all add: bench_a_def bench_b_def bench_c_def bench_d_def)

text \<open>
  Claim C2. The suite result of a suite with \<open>n\<close> definitions has exactly \<open>n\<close> entries,
  the entry at each position bearing the name of the definition at that position and
  being a success result or a failure result. No benchmark is skipped, whatever the others
  did: every benchmark that has a setup or at least one iteration left calls in the record.
\<close>

theorem suite_result_has_one_entry_per_definition:
  assumes "run_suite env suite opts w = (res, w1)"
  shows "length (benchmarks_of res) = length (s_benchmarks suite) \<and>
     (\<forall>j<length (s_benchmarks suite).
        (is_success_entry (b_name (s_benchmarks suite ! j)) (benchmarks_of res ! j) \<or>
         is_failure_entry (b_name (s_benchmarks suite ! j)) (benchmarks_of res ! j)) \<and>
        (b_setup (s_benchmarks suite ! j) \<noteq> None \<or> 1 \<le> iterations_of (s_benchmarks suite ! j) \<longrightarrow>
           events_of j (new_events w w1) \<noteq> []))"
  using run_suite_entries [OF assms] by blast

theorem suite_result_has_one_entry_per_definition_witness:
  "run_suite ex_env ex_suite default_suite_options ex_world =
     (fst (run_suite ex_env ex_suite default_suite_options ex_world),
      snd (run_suite ex_env ex_suite default_suite_options ex_world)) \<and>
   length (s_benchmarks ex_suite) = 4 \<and>
   length (benchmarks_of (fst (run_suite ex_env ex_suite default_suite_options ex_world))) = 4 \<and>
   is_success_entry ''Bench A''
     (benchmarks_of (fst (run_suite ex_env ex_suite default_suite_options ex_world)) ! 0) \<and>
   is_failure_entry ''Bench B''
     (benchmarks_of (fst (run_suite ex_env ex_suite default_suite_options ex_world)) ! 1) \<and>
   is_success_entry ''Bench C''
     (benchmarks_of (fst (run_suite ex_env ex_suite default_suite_options ex_world)) ! 2) \<and>
   events_of 2 (new_events ex_world
      (snd (run_suite ex_env ex_suite default_suite_options ex_world))) \<noteq> []"
proof -
  have h: "run_suite ex_env ex_suite default_suite_options ex_world =
     (fst (run_suite ex_env ex_suite default_suite_options ex_world),
      snd (run_suite ex_env ex_suite default_suite_options ex_world))" by simp
  have n: "length (s_benchmarks ex_suite) = 4" by (simp add: ex_suite_nth)
  from suite_result_has_one_entry_per_definition [OF h]
  have "length (benchmarks_of (fst (run_suite ex_env ex_suite default_suite_options ex_world))) = 4"
    by (simp add: n)
  moreover have "is_success_entry ''Bench A''
     (benchmarks_of (fst (run_suite ex_env ex_suite default_suite_options ex_world)) ! 0)"
    "is_failure_entry ''Bench B''
     (benchmarks_of (fst (run_suite ex_env ex_suite default_suite_options ex_world)) ! 1)"
    "is_success_entry ''Bench C''
     (benchmarks_of (fst (run_suite ex_env ex_suite default_suite_options ex_world)) ! 2)"
    by (simp_all add: ex_entries is_success_entry_def is_failure_entry_failure keys_def
          success_keys_def)
  moreover have "events_of 2 (new_events ex_world
      (snd (run_suite ex_env ex_suite default_suite_options ex_world))) \<noteq> []"
    by (simp add: ex_events events_of_def)
  ultimately show ?thesis using h n by blast
qed

text \<open>
  Claim C3. When the operation of a benchmark raises in some call, in the warm-up or in a
  timed iteration, the entry of that benchmark is the failure dictionary of that very
  exception: the name, the message \<open>str(e)\<close> and the traceback text that the environment
  gives for it, and none of the statistics. The raising call is the last call made for
  that benchmark. The suite result still has one entry per definition, and the benchmarks
  after the failed one are run: each of them that has a setup has it called, and each of
  them with at least one iteration whose setup did not raise has its operation called.
  (A definition is a value of the record, so it has the operation that is called.)
\<close>

theorem operation_failure_becomes_failure_entry:
  assumes "run_suite env suite opts w = (res, w1)" "j < length (s_benchmarks suite)"
    "FnDone j a (Some e) \<in> set (new_events w w1)"
  shows "benchmarks_of res ! j =
           VDict [(''name'', VStr (b_name (s_benchmarks suite ! j))),
                  (''error'', VStr (exn_message e)), (''stack'', VStr (format_exc env e))] \<and>
         \<not> is_success_entry (b_name (s_benchmarks suite ! j)) (benchmarks_of res ! j) \<and>
         last (events_of j (new_events w w1)) = FnDone j a (Some e) \<and>
         length (benchmarks_of res) = length (s_benchmarks suite) \<and>
         (\<forall>k<length (s_benchmarks suite). j < k \<longrightarrow>
            (is_success_entry (b_name (s_benchmarks suite ! k)) (benchmarks_of res ! k) \<or>
             is_failure_entry (b_name (s_benchmarks suite ! k)) (benchmarks_of res ! k)) \<and>
            (b_setup (s_benchmarks suite ! k) \<noteq> None \<longrightarrow>
               (\<exists>x. SetupDone k x \<in> set (new_events w w1))) \<and>
            (1 \<le> iterations_of (s_benchmarks suite ! k) \<and>
             (\<forall>e1. SetupDone k (Inl e1) \<notin> set (new_events w w1)) \<longrightarrow>
               (\<exists>a1 x. FnDone k a1 x \<in> set (new_events w w1))))"
proof -
  note bo = benchmarks_of_run_suite [OF assms(1)]
  have m: "FnDone j a (Some e) \<in> set (events_of j (new_events w w1))"
    using assms(3) by (rule in_events_of) simp
  have o: "bench_outcome env j (s_benchmarks suite ! j) (benchmarks_of res ! j)
             (events_of j (new_events w w1))"
    using bo(2) assms(2) by simp
  from o m have r: "benchmarks_of res ! j = failure_entry env (b_name (s_benchmarks suite ! j)) e"
    by (rule outcome_fn_raised)
  from o m have l: "last (events_of j (new_events w w1)) = FnDone j a (Some e)"
    by (rule outcome_raised_last)
  note en = run_suite_entries [OF assms(1)]
  have d: "benchmarks_of res ! j =
           VDict [(''name'', VStr (b_name (s_benchmarks suite ! j))),
                  (''error'', VStr (exn_message e)), (''stack'', VStr (format_exc env e))]"
    using r by (simp add: failure_entry_def)
  have ns: "\<not> is_success_entry (b_name (s_benchmarks suite ! j)) (benchmarks_of res ! j)"
    using r by (simp add: failure_entry_not_success)
  have later: "(is_success_entry (b_name (s_benchmarks suite ! k)) (benchmarks_of res ! k) \<or>
             is_failure_entry (b_name (s_benchmarks suite ! k)) (benchmarks_of res ! k)) \<and>
            (b_setup (s_benchmarks suite ! k) \<noteq> None \<longrightarrow>
               (\<exists>x. SetupDone k x \<in> set (new_events w w1))) \<and>
            (1 \<le> iterations_of (s_benchmarks suite ! k) \<and>
             (\<forall>e1. SetupDone k (Inl e1) \<notin> set (new_events w w1)) \<longrightarrow>
               (\<exists>a1 x. FnDone k a1 x \<in> set (new_events w w1)))"
    if k: "k < length (s_benchmarks suite)" for k
  proof -
    have ok: "bench_outcome env k (s_benchmarks suite ! k) (benchmarks_of res ! k)
             (events_of k (new_events w w1))"
      using bo(2) k by simp
    have sub: "set (events_of k (new_events w w1)) \<subseteq> set (new_events w w1)"
      by (auto simp: events_of_def)
    have "is_success_entry (b_name (s_benchmarks suite ! k)) (benchmarks_of res ! k) \<or>
          is_failure_entry (b_name (s_benchmarks suite ! k)) (benchmarks_of res ! k)"
      using en(2) k by blast
    moreover have "\<exists>x. SetupDone k x \<in> set (new_events w w1)"
      if "b_setup (s_benchmarks suite ! k) \<noteq> None"
      using outcome_setup_called [OF ok that] sub by blast
    moreover have "\<exists>a1 x. FnDone k a1 x \<in> set (new_events w w1)"
      if "1 \<le> iterations_of (s_benchmarks suite ! k)"
        "\<forall>e1. SetupDone k (Inl e1) \<notin> set (new_events w w1)"
    proof -
      have "\<forall>e1. SetupDone k (Inl e1) \<notin> set (events_of k (new_events w w1))"
        using that(2) sub by blast
      from outcome_fn_called [OF ok that(1) this] show ?thesis using sub by blast
    qed
    ultimately show ?thesis by blast
  qed
  show ?thesis
  proof (intro conjI allI impI)
    show "benchmarks_of res ! j =
           VDict [(''name'', VStr (b_name (s_benchmarks suite ! j))),
                  (''error'', VStr (exn_message e)), (''stack'', VStr (format_exc env e))]"
      by (rule d)
    show "\<not> is_success_entry (b_name (s_benchmarks suite ! j)) (benchmarks_of res ! j)"
      by (rule ns)
    show "last (events_of j (new_events w w1)) = FnDone j a (Some e)" by (rule l)
    show "length (benchmarks_of res) = length (s_benchmarks suite)" by (rule en(1))
  next
    fix k assume "k < length (s_benchmarks suite)"
    from later [OF this]
    show "is_success_entry (b_name (s_benchmarks suite ! k)) (benchmarks_of res ! k) \<or>
          is_failure_entry (b_name (s_benchmarks suite ! k)) (benchmarks_of res ! k)"
      by (rule conjunct1)
  next
    fix k assume "k < length (s_benchmarks suite)"
      and "b_setup (s_benchmarks suite ! k) \<noteq> None"
    with later [of k] show "\<exists>x. SetupDone k x \<in> set (new_events w w1)" by blast
  next
    fix k assume "k < length (s_benchmarks suite)"
      and "1 \<le> iterations_of (s_benchmarks suite ! k) \<and>
           (\<forall>e1. SetupDone k (Inl e1) \<notin> set (new_events w w1))"
    with later [of k] show "\<exists>a1 x. FnDone k a1 x \<in> set (new_events w w1)" by blast
  qed
qed

theorem operation_failure_becomes_failure_entry_witness:
  "run_suite ex_env ex_suite default_suite_options ex_world =
     (fst (run_suite ex_env ex_suite default_suite_options ex_world),
      snd (run_suite ex_env ex_suite default_suite_options ex_world)) \<and>
   (1::nat) < length (s_benchmarks ex_suite) \<and>
   FnDone 1 (Some 7) (Some boom) \<in> set (new_events ex_world
      (snd (run_suite ex_env ex_suite default_suite_options ex_world))) \<and>
   benchmarks_of (fst (run_suite ex_env ex_suite default_suite_options ex_world)) ! 1 =
     VDict [(''name'', VStr ''Bench B''), (''error'', VStr ''boom''),
            (''stack'', VStr (format_exc ex_env boom))] \<and>
   last (events_of 1 (new_events ex_world
      (snd (run_suite ex_env ex_suite default_suite_options ex_world)))) =
     FnDone 1 (Some 7) (Some boom) \<and>
   (3::nat) < length (s_benchmarks ex_suite) \<and> (1::nat) < 3 \<and>
   b_setup (s_benchmarks ex_suite ! 3) \<noteq> None \<and>
   1 \<le> iterations_of (s_benchmarks ex_suite ! 3) \<and>
   SetupDone 3 (Inr (Some 7)) \<in> set (new_events ex_world
      (snd (run_suite ex_env ex_suite default_suite_options ex_world))) \<and>
   FnDone 3 (Some 7) None \<in> set (new_events ex_world
      (snd (run_suite ex_env ex_suite default_suite_options ex_world))) \<and>
   is_success_entry ''Bench D''
     (benchmarks_of (fst (run_suite ex_env ex_suite default_suite_options ex_world)) ! 3)"
proof -
  have h: "run_suite ex_env ex_suite default_suite_options ex_world =
     (fst (run_suite ex_env ex_suite default_suite_options ex_world),
      snd (run_suite ex_env ex_suite default_suite_options ex_world))" by simp
  have n: "(1::nat) < length (s_benchmarks ex_suite)" "(3::nat) < length (s_benchmarks ex_suite)"
    by (simp_all add: ex_suite_nth)
  have m: "FnDone 1 (Some 7) (Some boom) \<in> set (new_events ex_world
      (snd (run_suite ex_env ex_suite default_suite_options ex_world)))"
    by (simp add: ex_events)
  have b: "b_setup (s_benchmarks ex_suite ! 3) \<noteq> None"
    "1 \<le> iterations_of (s_benchmarks ex_suite ! 3)"
    by (simp_all add: ex_suite_nth bench_d_def iterations_of_def)
  have c: "SetupDone 3 (Inr (Some 7)) \<in> set (new_events ex_world
      (snd (run_suite ex_env ex_suite default_suite_options ex_world)))"
    "FnDone 3 (Some 7) None \<in> set (new_events ex_world
      (snd (run_suite ex_env ex_suite default_suite_options ex_world)))"
    by (simp_all add: ex_events)
  note t = operation_failure_becomes_failure_entry [OF h n(1) m]
  have "benchmarks_of (fst (run_suite ex_env ex_suite default_suite_options ex_world)) ! 1 =
     VDict [(''name'', VStr ''Bench B''), (''error'', VStr ''boom''),
            (''stack'', VStr (format_exc ex_env boom))]"
    using t by (simp add: ex_suite_nth ex_bench_fields boom_def)
  moreover have "last (events_of 1 (new_events ex_world
      (snd (run_suite ex_env ex_suite default_suite_options ex_world)))) =
     FnDone 1 (Some 7) (Some boom)"
    using t by blast
  moreover have "is_success_entry ''Bench D''
     (benchmarks_of (fst (run_suite ex_env ex_suite default_suite_options ex_world)) ! 3)"
    by (simp add: ex_entries is_success_entry_def keys_def success_keys_def)
  ultimately show ?thesis using h n m b c by simp
qed

text \<open>
  Claim C9. A benchmark without setup, or whose setup returned \<open>None\<close>, has its operation
  called with no argument: with at least one iteration the operation is called, every call
  of it is a call with no argument, and the cleanup is never called, defined or not.
  (A definition is a value of the record, so it has the operation that is called.)
\<close>

theorem none_context_gives_no_argument_and_no_cleanup:
  assumes "run_suite env suite opts w = (res, w1)" "j < length (s_benchmarks suite)"
    "b_setup (s_benchmarks suite ! j) = None \<or> SetupDone j (Inr None) \<in> set (new_events w w1)"
  shows "(1 \<le> iterations_of (s_benchmarks suite ! j) \<longrightarrow>
            (\<exists>x. FnDone j None x \<in> set (events_of j (new_events w w1)))) \<and>
         (\<forall>ev\<in>set (events_of j (new_events w w1)). is_fn ev \<longrightarrow> (\<exists>x. ev = FnDone j None x)) \<and>
         filter is_cleanup (events_of j (new_events w w1)) = []"
proof -
  note bo = benchmarks_of_run_suite [OF assms(1)]
  have o: "bench_outcome env j (s_benchmarks suite ! j) (benchmarks_of res ! j)
             (events_of j (new_events w w1))"
    using bo(2) assms(2) by simp
  have s: "b_setup (s_benchmarks suite ! j) = None \<or>
        SetupDone j (Inr None) \<in> set (events_of j (new_events w w1))"
    using assms(3) by (auto intro: in_events_of)
  have "\<exists>x. FnDone j None x \<in> set (events_of j (new_events w w1))"
    if "1 \<le> iterations_of (s_benchmarks suite ! j)"
    using o s that by (rule outcome_none_called)
  with outcome_none_context [OF o s] show ?thesis by blast
qed

theorem none_context_gives_no_argument_and_no_cleanup_witness:
  "run_suite ex_env ex_suite default_suite_options ex_world =
     (fst (run_suite ex_env ex_suite default_suite_options ex_world),
      snd (run_suite ex_env ex_suite default_suite_options ex_world)) \<and>
   (2::nat) < length (s_benchmarks ex_suite) \<and>
   SetupDone 2 (Inr None) \<in> set (new_events ex_world
      (snd (run_suite ex_env ex_suite default_suite_options ex_world))) \<and>
   1 \<le> iterations_of (s_benchmarks ex_suite ! 2) \<and>
   b_cleanup (s_benchmarks ex_suite ! 2) \<noteq> None \<and>
   events_of 2 (new_events ex_world
      (snd (run_suite ex_env ex_suite default_suite_options ex_world))) =
     [SetupDone 2 (Inr None), FnDone 2 None None] \<and>
   (\<exists>x. FnDone 2 None x \<in> set (events_of 2 (new_events ex_world
      (snd (run_suite ex_env ex_suite default_suite_options ex_world))))) \<and>
   filter is_cleanup (events_of 2 (new_events ex_world
      (snd (run_suite ex_env ex_suite default_suite_options ex_world)))) = []"
proof -
  have h: "run_suite ex_env ex_suite default_suite_options ex_world =
     (fst (run_suite ex_env ex_suite default_suite_options ex_world),
      snd (run_suite ex_env ex_suite default_suite_options ex_world))" by simp
  have n: "(2::nat) < length (s_benchmarks ex_suite)" by (simp add: ex_suite_nth)
  have m: "SetupDone 2 (Inr None) \<in> set (new_events ex_world
      (snd (run_suite ex_env ex_suite default_suite_options ex_world)))"
    by (simp add: ex_events)
  have i: "1 \<le> iterations_of (s_benchmarks ex_suite ! 2)"
    by (simp add: ex_suite_nth bench_c_def iterations_of_def)
  have c: "b_cleanup (s_benchmarks ex_suite ! 2) \<noteq> None"
    by (simp add: ex_suite_nth ex_bench_fields)
  have e: "events_of 2 (new_events ex_world
      (snd (run_suite ex_env ex_suite default_suite_options ex_world))) =
     [SetupDone 2 (Inr None), FnDone 2 None None]"
    by (simp add: ex_events events_of_def)
  note t = none_context_gives_no_argument_and_no_cleanup [OF h n disjI2 [OF m]]
  from t i have "\<exists>x. FnDone 2 None x \<in> set (events_of 2 (new_events ex_world
      (snd (run_suite ex_env ex_suite default_suite_options ex_world))))"
    by blast
  moreover from t have "filter is_cleanup (events_of 2 (new_events ex_world
      (snd (run_suite ex_env ex_suite default_suite_options ex_world)))) = []"
    by blast
  ultimately show ?thesis using h n m i c e by blast
qed

text \<open>
  Claim C1, as amended. In a suite run the cleanup of a benchmark is called at most once,
  only when the benchmark defines one, and only with the context that its setup returned.
  It is called exactly once, and returns, for every benchmark that defines a cleanup, whose
  setup returned a context other than \<open>None\<close> and whose entry is a success result. It is
  never called for a benchmark whose setup raised.
\<close>

theorem cleanup_called_at_most_once_with_setup_context:
  assumes "run_suite env suite opts w = (res, w1)" "j < length (s_benchmarks suite)"
  shows "(filter is_cleanup (events_of j (new_events w w1)) = [] \<or>
          (\<exists>c x. filter is_cleanup (events_of j (new_events w w1)) = [CleanupDone j c x] \<and>
                 SetupDone j (Inr (Some c)) \<in> set (events_of j (new_events w w1)) \<and>
                 b_cleanup (s_benchmarks suite ! j) \<noteq> None)) \<and>
         ((\<exists>e. SetupDone j (Inl e) \<in> set (events_of j (new_events w w1))) \<longrightarrow>
            filter is_cleanup (events_of j (new_events w w1)) = []) \<and>
         (\<forall>c. is_success_entry (b_name (s_benchmarks suite ! j)) (benchmarks_of res ! j) \<and>
              b_cleanup (s_benchmarks suite ! j) \<noteq> None \<and>
              SetupDone j (Inr (Some c)) \<in> set (events_of j (new_events w w1)) \<longrightarrow>
              filter is_cleanup (events_of j (new_events w w1)) = [CleanupDone j c None])"
proof -
  note bo = benchmarks_of_run_suite [OF assms(1)]
  have o: "bench_outcome env j (s_benchmarks suite ! j) (benchmarks_of res ! j)
             (events_of j (new_events w w1))"
    using bo(2) assms(2) by simp
  from outcome_cleanup [OF o] show ?thesis by blast
qed

theorem cleanup_called_at_most_once_with_setup_context_witness:
  "run_suite ex_env ex_suite default_suite_options ex_world =
     (fst (run_suite ex_env ex_suite default_suite_options ex_world),
      snd (run_suite ex_env ex_suite default_suite_options ex_world)) \<and>
   (3::nat) < length (s_benchmarks ex_suite) \<and>
   is_success_entry (b_name (s_benchmarks ex_suite ! 3))
     (benchmarks_of (fst (run_suite ex_env ex_suite default_suite_options ex_world)) ! 3) \<and>
   b_cleanup (s_benchmarks ex_suite ! 3) \<noteq> None \<and>
   SetupDone 3 (Inr (Some 7)) \<in> set (events_of 3 (new_events ex_world
      (snd (run_suite ex_env ex_suite default_suite_options ex_world)))) \<and>
   filter is_cleanup (events_of 3 (new_events ex_world
      (snd (run_suite ex_env ex_suite default_suite_options ex_world)))) = [CleanupDone 3 7 None]"
proof -
  have h: "run_suite ex_env ex_suite default_suite_options ex_world =
     (fst (run_suite ex_env ex_suite default_suite_options ex_world),
      snd (run_suite ex_env ex_suite default_suite_options ex_world))" by simp
  have n: "(3::nat) < length (s_benchmarks ex_suite)" by (simp add: ex_suite_nth)
  have s: "is_success_entry (b_name (s_benchmarks ex_suite ! 3))
     (benchmarks_of (fst (run_suite ex_env ex_suite default_suite_options ex_world)) ! 3)"
    by (simp add: ex_entries ex_suite_nth ex_bench_fields is_success_entry_def keys_def success_keys_def)
  have c: "b_cleanup (s_benchmarks ex_suite ! 3) \<noteq> None"
    by (simp add: ex_suite_nth ex_bench_fields)
  have m: "SetupDone 3 (Inr (Some 7)) \<in> set (events_of 3 (new_events ex_world
      (snd (run_suite ex_env ex_suite default_suite_options ex_world))))"
    by (simp add: ex_events events_of_def)
  from cleanup_called_at_most_once_with_setup_context [OF h n] s c m
  have "filter is_cleanup (events_of 3 (new_events ex_world
      (snd (run_suite ex_env ex_suite default_suite_options ex_world)))) = [CleanupDone 3 7 None]"
    by blast
  then show ?thesis using h n s c m by blast
qed

text \<open>
  The claim C1 as it was stated fails on the example suite. Bench B (position 1) defines a
  cleanup, its setup returned the context 7, its operation raised: cleanup was not called.
  Bench C (position 2) defines a cleanup, its setup returned \<open>None\<close> without raising:
  cleanup was not called either.
\<close>

theorem cleanup_not_called_counterexample:
  "b_cleanup (s_benchmarks ex_suite ! 1) \<noteq> None \<and>
   events_of 1 (new_events ex_world
      (snd (run_suite ex_env ex_suite default_suite_options ex_world))) =
     [SetupDone 1 (Inr (Some 7)), FnDone 1 (Some 7) (Some boom)] \<and>
   length (filter is_cleanup (events_of 1 (new_events ex_world
      (snd (run_suite ex_env ex_suite default_suite_options ex_world))))) \<noteq> 1 \<and>
   b_cleanup (s_benchmarks ex_suite ! 2) \<noteq> None \<and>
   events_of 2 (new_events ex_world
      (snd (run_suite ex_env ex_suite default_suite_options ex_world))) =
     [SetupDone 2 (Inr None), FnDone 2 None None] \<and>
   length (filter is_cleanup (events_of 2 (new_events ex_world
      (snd (run_suite ex_env ex_suite default_suite_options ex_world))))) \<noteq> 1"
  by (simp add: ex_events events_of_def ex_suite_nth ex_bench_fields)

subsection \<open>Saving one result\<close>

lemma bench_file_name_example:
  "bench_file_name ''demo'' ''Bench A'' = ''demo_bench_a.json''"
  "bench_file_name ''demo'' ''Bench B'' = ''demo_bench_b.json''"
  "bench_file_name ''demo'' ''Bench C'' = ''demo_bench_c.json''"
  "bench_file_name ''demo'' ''Bench D'' = ''demo_bench_d.json''"
  by (simp_all add: bench_file_name_def lower_char_def)

lemma run_benchmark_save_file_raises:
  assumes "run_benchmark env i f nm a n opts w = (r, w1)" "bo_save_file opts = Some file_name"
    "file_name \<noteq> []"
  shows "\<exists>e. r = Inl e"
  using run_benchmark_events [OF assms(1)] assms(2,3) by (cases r) auto

lemma bench_file_name_nonempty: "bench_file_name suite_name name \<noteq> []"
  by (simp add: bench_file_name_def)

text \<open>
  With \<open>save_individual\<close> set, no benchmark of any suite is recorded as a success: every
  pass of the loop body ends in the handler.
\<close>

lemma run_one_save_individual:
  assumes "run_one env i suite_name opts b w = (r, w1)" "o_save_individual opts"
  shows "\<exists>e. r = failure_entry env (b_name b) e"
proof (cases "run_setup i b w")
  case (Pair rs w0)
  show ?thesis
  proof (cases rs)
    case (Inl e)
    then show ?thesis using assms(1) Pair by (auto simp: run_one_def)
  next
    case (Inr ctx)
    obtain rb w2 where rb: "run_benchmark env i (b_fn b) (b_fn_name b) ctx
        (case b_iterations b of Some n \<Rightarrow> n | None \<Rightarrow> 100)
        (make_bench_options suite_name opts b) w0 = (rb, w2)"
      by (rule prod.exhaust)
    have "bo_save_file (make_bench_options suite_name opts b) =
        Some (bench_file_name suite_name (b_name b))"
      using assms(2) by (simp add: make_bench_options_def)
    from run_benchmark_save_file_raises [OF rb this bench_file_name_nonempty]
    obtain e where "rb = Inl e" ..
    then show ?thesis using assms(1) Pair Inr rb by (auto simp: run_one_def)
  qed
qed

lemma run_benchmarks_save_individual:
  assumes "run_benchmarks env suite_name opts i bs w = (rs, w1)" "o_save_individual opts"
  shows "length rs = length bs \<and>
         (\<forall>j<length bs. \<exists>e. rs ! j = failure_entry env (b_name (bs ! j)) e)"
  using assms(1)
proof (induction bs arbitrary: i w rs w1)
  case Nil
  then show ?case by simp
next
  case (Cons b bs)
  obtain r w0 where r: "run_one env i suite_name opts b w = (r, w0)" by (rule prod.exhaust)
  obtain rs0 w2 where rs0: "run_benchmarks env suite_name opts (Suc i) bs w0 = (rs0, w2)"
    by (rule prod.exhaust)
  have rs: "rs = r # rs0" using Cons.prems r rs0 by simp
  from run_one_save_individual [OF r assms(2)]
  obtain e where e: "r = failure_entry env (b_name b) e" ..
  note ih = Cons.IH [OF rs0]
  show ?case unfolding rs using e ih by (auto simp: nth_Cons')
qed

lemma run_suite_save_individual:
  assumes "run_suite env suite opts w = (res, w1)" "o_save_individual opts"
    "j < length (s_benchmarks suite)"
  shows "\<exists>e. benchmarks_of res ! j = failure_entry env (b_name (s_benchmarks suite ! j)) e"
proof -
  obtain rs w0 where rs: "run_benchmarks env (s_name suite) opts 0 (s_benchmarks suite) w = (rs, w0)"
    by (rule prod.exhaust)
  have "benchmarks_of res = rs"
    using assms(1) rs by (auto simp: run_suite_def Let_def benchmarks_of_def split: option.splits if_splits)
  then show ?thesis using run_benchmarks_save_individual [OF rs assms(2)] assms(3) by simp
qed

lemma ex_save_run:
  "run_suite ex_env ex_suite ex_save_options ex_world =
     ([(''name'', VStr ''demo''), (''description'', VStr []),
       (''benchmarks'',
        VList
         [failure_entry ex_env ''Bench A'' TypeError, failure_entry ex_env ''Bench B'' boom,
          failure_entry ex_env ''Bench C'' TypeError, failure_entry ex_env ''Bench D'' TypeError]),
       (''timestamp'', VStr ''2024-01-01T00:00:00''),
       (''implementation'', VStr ''python'')],
      \<lparr>user = 14,
         files = [''demo_bench_a.json'' \<mapsto> [], ''demo_bench_c.json'' \<mapsto> [],
                  ''demo_bench_d.json'' \<mapsto> []],
         trace =
           [FnDone 0 None None, FnDone 0 None None, FnDone 0 None None,
            FnDone 0 None None, FnDone 0 None None,
            SetupDone 1 (Inr (Some 7)), FnDone 1 (Some 7) (Some boom),
            SetupDone 2 (Inr None), FnDone 2 None None,
            SetupDone 3 (Inr (Some 7)), FnDone 3 (Some 7) None]\<rparr>)"
  by (simp add: ex_defs ex_save_options_def save_result_def bench_file_name_example)

text \<open>
  Claim C4 fails on the code. The file name is the one the claim gives, but with
  \<open>save_individual\<close> set, Bench A, whose operation returned in every call, is recorded as
  a failure with the TypeError of the call \<open>json.dump(results, None, 2)\<close>; the file of
  that name exists and is empty, which is not JSON. Without the option the same benchmark
  is a success.
\<close>

theorem save_individual_turns_success_into_failure:
  "bench_file_name ''demo'' ''Bench A'' = ''demo_bench_a.json'' \<and>
   benchmarks_of (fst (run_suite ex_env ex_suite ex_save_options ex_world)) ! 0 =
     VDict [(''name'', VStr ''Bench A''),
            (''error'', VStr ''dump() takes 2 positional arguments but 3 were given''),
            (''stack'', VStr (format_exc ex_env TypeError))] \<and>
   files (snd (run_suite ex_env ex_suite ex_save_options ex_world)) ''demo_bench_a.json'' = Some [] \<and>
   is_success_entry ''Bench A''
     (benchmarks_of (fst (run_suite ex_env ex_suite default_suite_options ex_world)) ! 0)"
proof -
  have "benchmarks_of (fst (run_suite ex_env ex_suite ex_save_options ex_world)) ! 0 =
     failure_entry ex_env ''Bench A'' TypeError"
    by (simp add: ex_save_run benchmarks_of_def)
  then have "benchmarks_of (fst (run_suite ex_env ex_suite ex_save_options ex_world)) ! 0 =
     VDict [(''name'', VStr ''Bench A''),
            (''error'', VStr ''dump() takes 2 positional arguments but 3 were given''),
            (''stack'', VStr (format_exc ex_env TypeError))]"
    by (simp add: failure_entry_def TypeError_def)
  moreover have "files (snd (run_suite ex_env ex_suite ex_save_options ex_world))
      ''demo_bench_a.json'' = Some []"
    by (simp add: ex_save_run)
  moreover have "is_success_entry ''Bench A''
     (benchmarks_of (fst (run_suite ex_env ex_suite default_suite_options ex_world)) ! 0)"
    by (simp add: ex_entries is_success_entry_def keys_def success_keys_def)
  ultimately show ?thesis by (simp add: bench_file_name_example)
qed

subsection \<open>main and the definitions\<close>






subsection \<open>The order statistics lie between the minimum and the maximum; the mean need not\<close>

text \<open>
  Claim C7, as amended. For every non-empty list of samples, none of them NaN (the timed
  loop collects none, see \<open>timed_loop_events\<close>), the reported median and p95 lie between
  the reported minimum and maximum. The statistics are computed unless the number of
  samples is beyond the range of a float. (The mean is left out: it is a rounded quotient
  of a rounded sum.)
\<close>

theorem order_statistics_between_min_and_max:
  assumes "samples \<noteq> []" "NaN \<notin> set samples"
  shows "case statistics name (int (length samples)) samples ts of
           Inr r \<Rightarrow>
             (\<exists>mn md mx p.
                map_of r ''min'' = Some (VFloat mn) \<and> map_of r ''median'' = Some (VFloat md) \<and>
                map_of r ''max'' = Some (VFloat mx) \<and> map_of r ''p95'' = Some (VFloat p) \<and>
                fle mn md \<and> fle md mx \<and> fle mn p \<and> fle p mx)
         | Inl e \<Rightarrow> e = OverflowError \<and> 2 ^ 1023 \<le> int (length samples)"
proof -
  define s where "s = py_sorted samples"
  define n where "n = length samples"
  have len: "length s = n" by (simp add: s_def n_def length_py_sorted)
  have n0: "0 < n" using assms(1) by (simp add: n_def)
  have srt: "sorted_wrt fle s" unfolding s_def using assms(2) by (rule sorted_py_sorted)
  have nn: "NaN \<notin> set s" using assms(2) by (simp add: s_def set_py_sorted)
  have le: "fle (s ! i) (s ! j)" if "i \<le> j" "j < n" for i j
    using srt nn that len by (intro sorted_fle_nth) simp_all
  from statistics_nonempty [OF assms(1) refl, of name ts] show ?thesis
  proof
    assume "statistics name (int (length samples)) samples ts = Inl OverflowError \<and>
      2 ^ 1023 \<le> int (length samples)"
    then show ?thesis by simp
  next
    assume "\<exists>b k. float_of_int (int (length samples)) = Inr b \<and> b \<noteq> 0 \<and>
        p95_index (int (length samples)) = Inr k \<and> 0 \<le> k \<and> k \<le> int (length samples) - 1 \<and>
        statistics name (int (length samples)) samples ts =
          Inr [(''name'', VStr name), (''iterations'', VInt (int (length samples))),
               (''total'', py_sum samples),
               (''mean'', VFloat (fdiv (foldl fadd (hd samples) (tl samples)) b)),
               (''median'', VFloat (py_sorted samples ! (length samples div 2))),
               (''min'', VFloat (py_sorted samples ! 0)),
               (''max'', VFloat (py_sorted samples ! (length samples - 1))),
               (''p95'', VFloat (py_sorted samples ! nat k)),
               (''timestamp'', VStr ts)]"
    then obtain b k where k: "0 \<le> k" "k \<le> int n - 1"
      and st: "statistics name (int (length samples)) samples ts =
          Inr [(''name'', VStr name), (''iterations'', VInt (int (length samples))),
               (''total'', py_sum samples),
               (''mean'', VFloat (fdiv (foldl fadd (hd samples) (tl samples)) b)),
               (''median'', VFloat (s ! (n div 2))),
               (''min'', VFloat (s ! 0)),
               (''max'', VFloat (s ! (n - 1))),
               (''p95'', VFloat (s ! nat k)),
               (''timestamp'', VStr ts)]"
      unfolding s_def n_def by blast
    have "fle (s ! 0) (s ! (n div 2))" "fle (s ! (n div 2)) (s ! (n - 1))"
      "fle (s ! 0) (s ! nat k)" "fle (s ! nat k) (s ! (n - 1))"
      using n0 k by (auto intro!: le)
    then show ?thesis unfolding st by simp
  qed
qed

theorem order_statistics_between_min_and_max_witness:
  "[Fin 4, Fin 1, Fin 3, Fin 2] \<noteq> [] \<and> NaN \<notin> set [Fin 4, Fin 1, Fin 3, Fin 2] \<and>
   (\<exists>r. statistics ''bench'' 4 [Fin 4, Fin 1, Fin 3, Fin 2] ''t'' = Inr r \<and>
        map_of r ''min'' = Some (VFloat (Fin 1)) \<and> map_of r ''median'' = Some (VFloat (Fin 3)) \<and>
        map_of r ''max'' = Some (VFloat (Fin 4)) \<and> map_of r ''p95'' = Some (VFloat (Fin 4)))"
proof -
  have h: "[Fin 4, Fin 1, Fin 3, Fin 2] \<noteq> []" "NaN \<notin> set [Fin 4, Fin 1, Fin 3, Fin 2]"
    by simp_all
  have s: "py_sorted [Fin 4, Fin 1, Fin 3, Fin 2] = [Fin 1, Fin 2, Fin 3, Fin 4]"
    by (simp add: py_sorted_def)
  from statistics_nonempty [OF h(1), of 4 "''bench''" "''t''"]
  obtain r where r: "statistics ''bench'' 4 [Fin 4, Fin 1, Fin 3, Fin 2] ''t'' = Inr r"
    "map_of r ''min'' = Some (VFloat (Fin 1))" "map_of r ''median'' = Some (VFloat (Fin 3))"
    "map_of r ''max'' = Some (VFloat (Fin 4))" "map_of r ''p95'' = Some (VFloat (Fin 4))"
    by (auto simp: s p95_index_4)
  from order_statistics_between_min_and_max [OF h, of "''bench''" "''t''"]
  have "case statistics ''bench'' 4 [Fin 4, Fin 1, Fin 3, Fin 2] ''t'' of
          Inr r \<Rightarrow> True | Inl e \<Rightarrow> e = OverflowError \<and> (2::int) ^ 1023 \<le> 4"
    by (simp split: sum.splits)
  then show ?thesis using h r by blast
qed


lemma tenth_sums:
  "round_double (2 * tenth) = Fin (2 * tenth)"
  "round_double (3 * tenth) = Fin three_tenths"
  "round_double (three_tenths / 3) = Fin tenth_next"
  using round_double_at [of "- 3" "2 * tenth"]
    round_double_at [of "- 2" "3 * tenth"]
    round_double_at [of "- 4" "three_tenths / 3"]
  by (simp_all add: tenth_def tenth_next_def three_tenths_def pow2_def round_half_even_def
        Let_def floor_rat_numeral)

lemma tenth_total: "foldl fadd (Fin tenth) [Fin tenth, Fin tenth] = Fin three_tenths"
proof -
  have "fadd (Fin tenth) (Fin tenth) = Fin (2 * tenth)"
    using tenth_sums(1) by simp
  moreover have "fadd (Fin (2 * tenth)) (Fin tenth) = Fin three_tenths"
    using tenth_sums(2) by simp
  ultimately show ?thesis by simp
qed

lemma p95_index_3: "p95_index 3 = Inr 2"
proof -
  have "round_double (3 * (8556839292003942 / 2 ^ 53)) = Fin (1604407367250739 / 2 ^ 49)"
    using round_double_at [of 1 "3 * (8556839292003942 / 2 ^ 53)"]
    by (simp add: pow2_def round_half_even_def Let_def floor_rat_numeral)
  then show ?thesis
    by (simp add: p95_index_def float_of_int_numeral literal_0_95_value py_int_def floor_rat_numeral)
qed

lemma tenth_is_literal: "round_double (1 / 10) = Fin tenth"
  using round_double_at [of "- 4" "1 / 10"]
  by (simp add: tenth_def pow2_def round_half_even_def Let_def floor_rat_numeral)

text \<open>
  The claim C7 as it was stated fails for the mean. Three samples that all are the double
  of the literal \<open>0.1\<close>: their sum, added left to right in binary64, is the double
  0.30000000000000004, and a third of it rounds to 0.10000000000000002, the double after
  0.1, which is above the maximum 0.1. (The exact sum is half way between two doubles, so
  the summation with a correction term returns the same total.)
\<close>

theorem mean_above_max_counterexample:
  "statistics ''bench'' 3 [Fin tenth, Fin tenth, Fin tenth] ''t'' =
     Inr [(''name'', VStr ''bench''), (''iterations'', VInt 3),
          (''total'', VFloat (Fin three_tenths)),
          (''mean'', VFloat (Fin tenth_next)),
          (''median'', VFloat (Fin tenth)), (''min'', VFloat (Fin tenth)),
          (''max'', VFloat (Fin tenth)), (''p95'', VFloat (Fin tenth)),
          (''timestamp'', VStr ''t'')] \<and>
   \<not> fle (Fin tenth_next) (Fin tenth) \<and>
   round_double (1 / 10) = Fin tenth \<and>
   tenth = 3602879701896397 / 2 ^ 55 \<and> tenth_next = 7205759403792795 / 2 ^ 56 \<and>
   three_tenths = 5404319552844596 / 2 ^ 54"
proof -
  have t: "py_sum [Fin tenth, Fin tenth, Fin tenth] = VFloat (Fin three_tenths)"
    unfolding py_sum_def by (simp only: list.case tenth_total)
  have m: "py_truediv (VFloat (Fin three_tenths)) 3 = Inr (VFloat (Fin tenth_next))"
    by (simp add: py_truediv_def float_of_int_numeral tenth_sums)
  have s: "py_sorted [Fin tenth, Fin tenth, Fin tenth] = [Fin tenth, Fin tenth, Fin tenth]"
    by (simp add: py_sorted_def)
  have "statistics ''bench'' 3 [Fin tenth, Fin tenth, Fin tenth] ''t'' =
     Inr [(''name'', VStr ''bench''), (''iterations'', VInt 3),
          (''total'', VFloat (Fin three_tenths)),
          (''mean'', VFloat (Fin tenth_next)),
          (''median'', VFloat (Fin tenth)), (''min'', VFloat (Fin tenth)),
          (''max'', VFloat (Fin tenth)), (''p95'', VFloat (Fin tenth)),
          (''timestamp'', VStr ''t'')]"
    by (simp add: statistics_def t m s py_index_def p95_index_3)
  moreover have "\<not> fle (Fin tenth_next) (Fin tenth)"
    by (simp add: tenth_def tenth_next_def)
  moreover have "tenth = 3602879701896397 / 2 ^ 55 \<and> tenth_next = 7205759403792795 / 2 ^ 56 \<and>
      three_tenths = 5404319552844596 / 2 ^ 54"
    unfolding three_tenths_def tenth_def tenth_next_def by (intro conjI refl)
  moreover note tenth_is_literal
  ultimately show ?thesis by (intro conjI) blast+
qed

end
